theory Spec2Isabelle
  imports Complex_Main "HOL-Library.Word" "HOL-Library.Monad_Syntax"
begin

section \<open>JavaScript values and the pitch utility\<close>

text \<open>
  The engine is TypeScript on top of the Tone.js audio library. JavaScript numbers are
  modelled as real numbers: the IEEE rounding of the double arithmetic, the infinities and
  the range limits of doubles are left out, and \<open>NaN\<close> appears only where the source
  multiplies a value that is not a number.

  \<open>noteToFrequency\<close> first reads the plain object literal \<open>simpleNoteMap\<close> with
  \<open>simpleNoteMap[note]\<close>. A property read on an object literal also finds the members
  that every object inherits from \<open>Object.prototype\<close>, so the read yields a number for
  the twelve own keys, an inherited member for the names below, and \<open>undefined\<close>
  (here \<open>None\<close>) otherwise. The second object literal, \<open>noteOffsets\<close>, is only read
  at a name that the regular expression has matched, a letter from A to G with or without
  a sharp, which is never the name of an inherited member.
\<close>

datatype js_value = Number real | NaN | ProtoMember string

fun truthy :: "js_value \<Rightarrow> bool" where
  "truthy (Number r) = (r \<noteq> 0)"
| "truthy NaN = False"
| "truthy (ProtoMember k) = True"

fun js_times :: "js_value \<Rightarrow> real \<Rightarrow> js_value" where
  "js_times (Number a) b = Number (a * b)"
| "js_times NaN b = NaN"
| "js_times (ProtoMember k) b = NaN"

definition Object_prototype_keys :: "string list" where
  "Object_prototype_keys =
     [''constructor'', ''__defineGetter__'', ''__defineSetter__'', ''hasOwnProperty'',
      ''__lookupGetter__'', ''__lookupSetter__'', ''isPrototypeOf'', ''propertyIsEnumerable'',
      ''toString'', ''valueOf'', ''__proto__'', ''toLocaleString'']"

definition property_read :: "(string \<times> real) list \<Rightarrow> string \<Rightarrow> js_value option" where
  "property_read obj k =
     (case map_of obj k of
        Some v \<Rightarrow> Some (Number v)
      | None \<Rightarrow> if k \<in> set Object_prototype_keys then Some (ProtoMember k) else None)"

definition simpleNoteMap :: "(string \<times> real) list" where
  "simpleNoteMap =
     [(''C4'', 261.63), (''C#4'', 277.18), (''D4'', 293.66), (''D#4'', 311.13),
      (''E4'', 329.63), (''F4'', 349.23), (''F#4'', 369.99), (''G4'', 392.00),
      (''G#4'', 415.30), (''A4'', 440.00), (''A#4'', 466.16), (''B4'', 493.88)]"

definition noteOffsets :: "(string \<times> int) list" where
  "noteOffsets =
     [(''C'', 0), (''C#'', 1), (''D'', 2), (''D#'', 3), (''E'', 4), (''F'', 5),
      (''F#'', 6), (''G'', 7), (''G#'', 8), (''A'', 9), (''A#'', 10), (''B'', 11)]"

text \<open>The regular expression \<open>/^([A-G]#?)(\d+)$/\<close>: the two groups of a match.\<close>

definition is_digit :: "char \<Rightarrow> bool" where
  "is_digit c = (c \<in> set ''0123456789'')"

definition digits :: "string \<Rightarrow> bool" where
  "digits ds = (ds \<noteq> [] \<and> list_all is_digit ds)"

fun noteRegex :: "string \<Rightarrow> (string \<times> string) option" where
  "noteRegex [] = None"
| "noteRegex (c # cs) =
     (if c \<in> set ''ABCDEFG'' then
        (case cs of
           [] \<Rightarrow> None
         | d # ds \<Rightarrow>
             if d = CHR ''#'' then (if digits ds then Some ([c, d], ds) else None)
             else (if digits cs then Some ([c], cs) else None))
      else None)"

text \<open>\<open>parseInt\<close> on a string of decimal digits.\<close>

definition digit_value :: "char \<Rightarrow> nat" where
  "digit_value c = of_char c - 48"

definition parseInt :: "string \<Rightarrow> nat" where
  "parseInt ds = foldl (\<lambda>a c. 10 * a + digit_value c) 0 ds"

definition A4_FREQ :: real where
  "A4_FREQ = 440"

definition C4_FREQ :: real where
  "C4_FREQ = A4_FREQ * 2 powr (- 9 / 12)"

text \<open>
  The part of \<open>noteToFrequency\<close> after the look-up in \<open>simpleNoteMap\<close>: the
  regular expression, the semitone offset and the equal-temperament formula.
\<close>

definition fullNoteFormat :: "string \<Rightarrow> js_value" where
  "fullNoteFormat note =
     (case noteRegex note of
        None \<Rightarrow> Number 440
      | Some (noteName, octaveStr) \<Rightarrow>
          (case map_of noteOffsets noteName of
             None \<Rightarrow> Number 440
           | Some semitoneOffset \<Rightarrow>
               (let octave = int (parseInt octaveStr);
                    semitonesFromC4 = (octave - 4) * 12 + semitoneOffset
                in Number (C4_FREQ * 2 powr (real_of_int semitonesFromC4 / 12)))))"

definition noteToFrequency :: "string \<Rightarrow> js_value" where
  "noteToFrequency note =
     (case property_read simpleNoteMap note of
        Some v \<Rightarrow> if truthy v then v else fullNoteFormat note
      | None \<Rightarrow> fullNoteFormat note)"

text \<open>
  The position of a valid note name on the semitone scale, octave times twelve plus the
  offset of the name from C. It is defined for the names that match the regular
  expression and have an entry in \<open>noteOffsets\<close> (so not for E# and B#).
\<close>

definition note_index :: "string \<Rightarrow> int option" where
  "note_index note =
     (case noteRegex note of
        None \<Rightarrow> None
      | Some (noteName, octaveStr) \<Rightarrow>
          (case map_of noteOffsets noteName of
             None \<Rightarrow> None
           | Some semitoneOffset \<Rightarrow> Some (int (parseInt octaveStr) * 12 + semitoneOffset)))"


text \<open>
  The equal-tempered frequency at a position of the semitone scale, A4 (position 57) being
  440 Hz. The proofs compare the values of \<open>noteToFrequency\<close> with it.
\<close>

definition equal_tempered :: "int \<Rightarrow> real" where
  "equal_tempered k = 440 * 2 powr (real_of_int (k - 57) / 12)"

section \<open>The audio graph\<close>

text \<open>
  Tone.js nodes live in a store: a node is referred to by its position in \<open>nodes\<close>, a
  \<open>new Tone.X(...)\<close> appends to it, and the sustained-note registry and the timer
  callbacks hold positions, as the source holds object references. A node records its
  class and parameters, whether \<open>start()\<close> was called, how often \<open>dispose()\<close> was
  called (\<open>node.disposed\<close> is \<open>0 < disposals\<close>) and, for an envelope, the trigger calls
  it received. Tone.js operations themselves are taken not to throw. The parameters of a
  \<open>Filter\<close> are its frequency, type, rolloff and Q; a \<open>Player\<close> would play the buffer of
  the sample pool stored under the given id.
\<close>

datatype node_kind =
    Oscillator js_value string
  | Noise string
  | AmplitudeEnvelope real real real real
  | Gain real
  | Filter real string int real
  | LFO real
  | Player string

datatype trigger = triggerAttack | triggerRelease | triggerAttackRelease string

record audio_node =
  kind :: node_kind
  started :: bool
  disposals :: nat
  triggers :: "trigger list"

datatype sink = Node nat | FrequencyOf nat | MasterGain

record AudioLayer =
  id_layer :: string
  name :: string
  volume :: real
  muted :: bool
  solo :: bool
  effects :: "string list"

record sustained =
  source :: nat
  envelope :: nat
  gain :: nat
  filter_node :: nat
  layerId :: string
  baseVolume :: real
  baseFrequency :: "js_value option"

text \<open>
  \<open>SynthParams\<close>: the oscillator type, the envelope (attack, decay, sustain, release), the
  optional filter (frequency, Q, optional type) and the optional modulation (frequency,
  depth, type).
\<close>

record SynthParams =
  oscillator_type :: string
  envelope_params :: "real \<times> real \<times> real \<times> real"
  filter_params :: "(real \<times> real \<times> string option) option"
  modulation :: "(real \<times> real \<times> string) option"

text \<open>
  The bodies of the \<open>setTimeout\<close> callbacks, with the nodes their closures captured, and
  the callbacks passed to \<open>then\<close> on the promises of \<open>context.resume()\<close> and
  \<open>Tone.start()\<close>.
\<close>

datatype callback =
    CleanupDrum nat nat nat
  | CleanupNote nat nat nat
  | CleanupSynth nat nat nat nat
  | CleanupSustained string nat nat nat nat

datatype promise = context_resume | Tone_start

datatype continuation =
    RetrySample string string real
  | RetrySynth real string real string "SynthParams option"

datatype context_state = suspended | running | closed

record engine =
  contextState :: context_state
  masterGain :: real
  limiter :: real
  layers :: "string \<rightharpoonup> AudioLayer"
  activeSources :: "string \<rightharpoonup> nat list"
  bufferPool :: "string \<rightharpoonup> bool"
  globalInstrumentVolume :: real
  sustainedNotes :: "string \<rightharpoonup> sustained"
  nodes :: "audio_node list"
  edges :: "(nat \<times> sink) list"
  timers :: "(nat \<times> callback) list"
  promises :: "(promise \<times> continuation) list"
  clock :: nat

text \<open>The state the constructor leaves, for a given context state and clock reading.\<close>

definition new_engine :: "context_state \<Rightarrow> nat \<Rightarrow> engine" where
  "new_engine st t =
     \<lparr>contextState = st, masterGain = 2.0, limiter = - 0.1, layers = Map.empty,
      activeSources = Map.empty, bufferPool = Map.empty, globalInstrumentVolume = 0.5,
      sustainedNotes = Map.empty, nodes = [], edges = [], timers = [], promises = [],
      clock = t\<rparr>"

subsection \<open>Node operations\<close>

definition new_node :: "node_kind \<Rightarrow> engine \<Rightarrow> nat \<times> engine" where
  "new_node k s =
     (length (nodes s),
      s\<lparr>nodes := nodes s @ [\<lparr>kind = k, started = False, disposals = 0, triggers = []\<rparr>]\<rparr>)"

definition map_node :: "nat \<Rightarrow> (audio_node \<Rightarrow> audio_node) \<Rightarrow> engine \<Rightarrow> engine" where
  "map_node i f s = s\<lparr>nodes := (nodes s)[i := f (nodes s ! i)]\<rparr>"

definition connect :: "nat \<Rightarrow> sink \<Rightarrow> engine \<Rightarrow> engine" where
  "connect a b s = s\<lparr>edges := edges s @ [(a, b)]\<rparr>"

definition disconnect :: "nat \<Rightarrow> engine \<Rightarrow> engine" where
  "disconnect a s = s\<lparr>edges := filter (\<lambda>e. fst e \<noteq> a) (edges s)\<rparr>"

definition start :: "nat \<Rightarrow> engine \<Rightarrow> engine" where
  "start i s = map_node i (\<lambda>n. n\<lparr>started := True\<rparr>) s"

definition trigger_envelope :: "nat \<Rightarrow> trigger \<Rightarrow> engine \<Rightarrow> engine" where
  "trigger_envelope i t s = map_node i (\<lambda>n. n\<lparr>triggers := triggers n @ [t]\<rparr>) s"

text \<open>\<open>dispose()\<close> of a Tone.js node also disconnects its output.\<close>

definition dispose :: "nat \<Rightarrow> engine \<Rightarrow> engine" where
  "dispose i s = map_node i (\<lambda>n. n\<lparr>disposals := Suc (disposals n)\<rparr>) (disconnect i s)"

definition disposed :: "engine \<Rightarrow> nat \<Rightarrow> bool" where
  "disposed s i = (0 < disposals (nodes s ! i))"

definition dispose_unless_disposed :: "nat \<Rightarrow> engine \<Rightarrow> engine" where
  "dispose_unless_disposed i s = (if disposed s i then s else dispose i s)"

fun set_gain_value :: "real \<Rightarrow> node_kind \<Rightarrow> node_kind" where
  "set_gain_value v (Gain g) = Gain v"
| "set_gain_value v k = k"

fun set_filter_frequency :: "real \<Rightarrow> node_kind \<Rightarrow> node_kind" where
  "set_filter_frequency v (Filter f t r q) = Filter v t r q"
| "set_filter_frequency v k = k"

fun set_filter_Q :: "real \<Rightarrow> node_kind \<Rightarrow> node_kind" where
  "set_filter_Q v (Filter f t r q) = Filter f t r v"
| "set_filter_Q v k = k"

fun set_oscillator_frequency :: "js_value \<Rightarrow> node_kind \<Rightarrow> node_kind" where
  "set_oscillator_frequency v (Oscillator f t) = Oscillator v t"
| "set_oscillator_frequency v k = k"

fun is_Oscillator :: "node_kind \<Rightarrow> bool" where
  "is_Oscillator (Oscillator f t) = True"
| "is_Oscillator k = False"

definition set_param :: "nat \<Rightarrow> (node_kind \<Rightarrow> node_kind) \<Rightarrow> engine \<Rightarrow> engine" where
  "set_param i f s = map_node i (\<lambda>n. n\<lparr>kind := f (kind n)\<rparr>) s"

definition setTimeout :: "callback \<Rightarrow> nat \<Rightarrow> engine \<Rightarrow> engine" where
  "setTimeout cb ms s = s\<lparr>timers := timers s @ [(clock s + ms, cb)]\<rparr>"

definition then_call :: "promise \<Rightarrow> continuation \<Rightarrow> engine \<Rightarrow> engine" where
  "then_call p k s = s\<lparr>promises := promises s @ [(p, k)]\<rparr>"

text \<open>\<open>String.prototype.includes\<close> and the decimal digits of a template literal.\<close>

fun includes_str :: "string \<Rightarrow> string \<Rightarrow> bool" where
  "includes_str [] p = (p = [])"
| "includes_str (c # cs) p = (take (length p) (c # cs) = p \<or> includes_str cs p)"

fun decimal :: "nat \<Rightarrow> string" where
  "decimal n =
     (if n < 10 then [''0123456789'' ! n]
      else decimal (n div 10) @ [''0123456789'' ! (n mod 10)])"

declare decimal.simps [simp del]


section \<open>The engine\<close>

subsection \<open>Layers\<close>

definition addLayer :: "AudioLayer \<Rightarrow> engine \<Rightarrow> engine" where
  "addLayer layer s =
     s\<lparr>layers := (layers s)(id_layer layer \<mapsto> layer),
       activeSources := (activeSources s)(id_layer layer \<mapsto> [])\<rparr>"

definition hasLayer :: "string \<Rightarrow> engine \<Rightarrow> bool" where
  "hasLayer lid s = (layers s lid \<noteq> None)"

definition updateLayerVolume :: "string \<Rightarrow> real \<Rightarrow> engine \<Rightarrow> engine" where
  "updateLayerVolume lid v s =
     (case layers s lid of
        None \<Rightarrow> s
      | Some layer \<Rightarrow> s\<lparr>layers := (layers s)(lid \<mapsto> layer\<lparr>volume := v\<rparr>)\<rparr>)"


subsection \<open>One-shot playback\<close>

definition createDrumSound :: "string \<Rightarrow> node_kind" where
  "createDrumSound type =
     (if type = ''kick'' then Oscillator (Number 60) ''sine''
      else if type = ''snare'' \<or> type = ''hihat'' \<or> type = ''openhat'' \<or> type = ''crash''
        then Noise ''white''
      else if type = ''ride'' then Oscillator (Number 800) ''triangle''
      else if type = ''tom1'' then Oscillator (Number 120) ''sine''
      else if type = ''tom2'' then Oscillator (Number 80) ''sine''
      else Oscillator (Number 440) ''sine'')"

definition playSyntheticDrum :: "string \<Rightarrow> real \<Rightarrow> engine \<Rightarrow> engine" where
  "playSyntheticDrum drumType vol s =
     (let (source, s) = new_node (createDrumSound drumType) s;
          (envelope, s) = new_node
             (AmplitudeEnvelope 0.01
                (if drumType = ''kick'' then 0.2 else if includes_str drumType ''hat'' then 0.05 else 0.1)
                0
                (if drumType = ''kick'' then 0.3 else if includes_str drumType ''hat'' then 0.02 else 0.2)) s;
          (gain, s) = new_node (Gain (min (vol * 0.5) 0.8)) s;
          s = connect source (Node envelope) s;
          s = connect envelope (Node gain) s;
          s = connect gain MasterGain s;
          s = (if includes_str drumType ''hat'' \<or> drumType = ''snare'' then
                 (let (filter, s) = new_node
                        (Filter (if drumType = ''snare'' then 2000 else 8000) ''highpass'' (- 12) 1) s;
                      s = disconnect envelope s;
                      s = connect envelope (Node filter) s
                  in connect filter (Node gain) s)
               else s);
          s = start source s;
          s = trigger_envelope envelope (triggerAttackRelease ''8n'') s
      in setTimeout (CleanupDrum source envelope gain) 1000 s)"

text \<open>
  \<open>playSampleInternal\<close> looks the buffer up in the pool, then plays the synthetic drum and
  returns: the statements after that \<open>return\<close>, which would play a loaded buffer through a
  \<open>Tone.Player\<close>, are never reached, so the pool has no part in the result.
\<close>

definition playSampleInternal :: "string \<Rightarrow> string \<Rightarrow> real \<Rightarrow> engine \<Rightarrow> engine" where
  "playSampleInternal sampleId lid velocity s =
     (case layers s lid of
        None \<Rightarrow> s
      | Some layer \<Rightarrow>
          if muted layer then s
          else playSyntheticDrum sampleId (velocity * volume layer) s)"

definition playSample :: "string \<Rightarrow> string \<Rightarrow> real \<Rightarrow> engine \<Rightarrow> engine" where
  "playSample sampleId lid velocity s =
     (case layers s lid of
        None \<Rightarrow> s
      | Some layer \<Rightarrow>
          if muted layer then s
          else if contextState s = suspended
            then then_call context_resume (RetrySample sampleId lid velocity) s
          else if contextState s \<noteq> running
            then then_call Tone_start (RetrySample sampleId lid velocity) s
          else playSampleInternal sampleId lid velocity s)"

definition playSyntheticNote :: "string \<Rightarrow> string \<Rightarrow> real \<Rightarrow> engine \<Rightarrow> engine" where
  "playSyntheticNote note lid velocity s =
     (case layers s lid of
        None \<Rightarrow> s
      | Some layer \<Rightarrow>
          if muted layer then s
          else
            (let frequency = noteToFrequency note;
                 (osc, s) = new_node (Oscillator frequency ''sine'') s;
                 (envelope, s) = new_node (AmplitudeEnvelope 0.001 0.1 0.6 0.2) s;
                 (gain, s) = new_node (Gain (velocity * volume layer * 0.3)) s;
                 s = connect osc (Node envelope) s;
                 s = connect envelope (Node gain) s;
                 s = connect gain MasterGain s;
                 s = start osc s;
                 s = trigger_envelope envelope (triggerAttackRelease ''4n'') s
             in setTimeout (CleanupNote osc envelope gain) 2000 s))"

definition default_params :: SynthParams where
  "default_params =
     \<lparr>oscillator_type = ''sine'', envelope_params = (0.1, 0.2, 0.6, 0.8),
      filter_params = None, modulation = None\<rparr>"

definition playAdvancedSynthInternal ::
  "real \<Rightarrow> string \<Rightarrow> real \<Rightarrow> string \<Rightarrow> SynthParams option \<Rightarrow> engine \<Rightarrow> engine" where
  "playAdvancedSynthInternal frequency lid velocity instrumentType synthParams s =
     (case layers s lid of
        None \<Rightarrow> s
      | Some layer \<Rightarrow>
          if muted layer then s
          else
            (let params = (case synthParams of Some p \<Rightarrow> p | None \<Rightarrow> default_params);
                 (osc, s) = new_node
                   (if instrumentType = ''piano'' then Oscillator (Number frequency) ''triangle''
                    else if instrumentType = ''bass''
                      then Oscillator (Number (frequency / 2)) (oscillator_type params)
                    else if instrumentType = ''strings'' then Oscillator (Number frequency) ''sawtooth''
                    else if instrumentType = ''winds'' then Oscillator (Number frequency) ''sine''
                    else Oscillator (Number frequency) (oscillator_type params)) s;
                 (envelope, s) = new_node
                   (case envelope_params params of (a, d, su, r) \<Rightarrow> AmplitudeEnvelope a d su r) s;
                 finalVolume = velocity * volume layer * globalInstrumentVolume s;
                 (gain, s) = new_node (Gain finalVolume) s;
                 (effectChain, s) =
                   (case filter_params params of
                      None \<Rightarrow> (envelope, s)
                    | Some (f, q, t) \<Rightarrow>
                        (let (filter, s) = new_node
                               (Filter f (case t of
                                            Some ty \<Rightarrow> if ty = [] then ''lowpass'' else ty
                                          | None \<Rightarrow> ''lowpass'') (- 12) 1) s;
                             s = set_param filter (set_filter_Q q) s;
                             s = connect envelope (Node filter) s
                         in (filter, s)));
                 s = (case modulation params of
                        None \<Rightarrow> s
                      | Some (mf, md, mt) \<Rightarrow>
                          if instrumentType = ''strings'' \<or> instrumentType = ''winds'' then
                            (let (lfo, s) = new_node (LFO mf) s
                             in if mt = ''vibrato''
                                then start lfo (connect lfo (FrequencyOf osc) s) else s)
                          else s);
                 s = connect osc (Node envelope) s;
                 s = connect effectChain (Node gain) s;
                 s = connect gain MasterGain s;
                 s = start osc s;
                 duration = (if instrumentType = ''piano'' then ''1n''
                             else if instrumentType = ''pad'' then ''2n''
                             else if instrumentType = ''bass'' then ''4n'' else ''8n'');
                 s = trigger_envelope envelope (triggerAttackRelease duration) s;
                 cleanupTime = (if instrumentType = ''piano'' then 6000
                                else if instrumentType = ''pad'' then 4000 else 2000)
             in setTimeout (CleanupSynth osc envelope gain effectChain) cleanupTime s))"

definition playAdvancedSynth ::
  "real \<Rightarrow> string \<Rightarrow> real \<Rightarrow> string \<Rightarrow> SynthParams option \<Rightarrow> engine \<Rightarrow> engine" where
  "playAdvancedSynth frequency lid velocity instrumentType synthParams s =
     (if contextState s = suspended
      then then_call context_resume (RetrySynth frequency lid velocity instrumentType synthParams) s
      else playAdvancedSynthInternal frequency lid velocity instrumentType synthParams s)"

subsection \<open>Sustained notes\<close>

definition startSustainedNote :: "string \<Rightarrow> string \<Rightarrow> real \<Rightarrow> engine \<Rightarrow> string \<times> engine" where
  "startSustainedNote note lid initialVelocity s =
     (case layers s lid of
        None \<Rightarrow> ([], s)
      | Some layer \<Rightarrow>
          if muted layer then ([], s)
          else
            (let noteId = lid @ ''-'' @ note @ ''-'' @ decimal (clock s);
                 frequency = noteToFrequency note;
                 (oscillator, s) = new_node (Oscillator frequency ''sine'') s;
                 (envelope, s) = new_node (AmplitudeEnvelope 0.001 0.05 0.9 0.1) s;
                 (gain, s) = new_node (Gain (initialVelocity * volume layer * 0.4)) s;
                 (filter, s) = new_node
                   (Filter (2000 + initialVelocity * 2000) ''lowpass'' (- 24) 1) s;
                 s = connect oscillator (Node filter) s;
                 s = connect filter (Node envelope) s;
                 s = connect envelope (Node gain) s;
                 s = connect gain MasterGain s;
                 s = start oscillator s;
                 s = trigger_envelope envelope triggerAttack s;
                 s = s\<lparr>sustainedNotes := (sustainedNotes s)(noteId \<mapsto>
                        \<lparr>source = oscillator, envelope = envelope, gain = gain,
                         filter_node = filter, layerId = lid,
                         baseVolume = volume layer * 0.4, baseFrequency = Some frequency\<rparr>)\<rparr>
             in (noteId, s)))"

text \<open>
  The three values \<open>modulateSustainedNote\<close> computes from the pressure: the local
  constants \<open>dynamicVolume\<close>, \<open>filterFreq\<close> and \<open>pitchMod\<close> of the source.
\<close>

definition dynamicVolume :: "real \<Rightarrow> sustained \<Rightarrow> AudioLayer \<Rightarrow> real" where
  "dynamicVolume pressure note layer =
     max 0.1 (min 1.0 pressure) * baseVolume note * volume layer"

definition filterFreq :: "real \<Rightarrow> real" where
  "filterFreq pressure = 200 + pressure * 3800"

definition pitchMod :: "js_value \<Rightarrow> real \<Rightarrow> js_value" where
  "pitchMod base pressure = js_times base (1 + (pressure - 0.5) * 0.02)"

definition modulateSustainedNote :: "string \<Rightarrow> real \<Rightarrow> engine \<Rightarrow> engine" where
  "modulateSustainedNote noteId pressure s =
     (case sustainedNotes s noteId of
        None \<Rightarrow> s
      | Some note \<Rightarrow>
          (case layers s (layerId note) of
             None \<Rightarrow> s
           | Some layer \<Rightarrow>
               (let s = set_param (gain note) (set_gain_value (dynamicVolume pressure note layer)) s;
                    s = set_param (filter_node note) (set_filter_frequency (filterFreq pressure)) s
                in case baseFrequency note of
                     None \<Rightarrow> s
                   | Some base \<Rightarrow>
                       if is_Oscillator (kind (nodes s ! source note)) \<and> truthy base
                       then set_param (source note)
                              (set_oscillator_frequency (pitchMod base pressure)) s
                       else s)))"

definition stopSustainedNote :: "string \<Rightarrow> engine \<Rightarrow> engine" where
  "stopSustainedNote noteId s =
     (case sustainedNotes s noteId of
        None \<Rightarrow> s
      | Some note \<Rightarrow>
          (let s = trigger_envelope (envelope note) triggerRelease s
           in setTimeout
                (CleanupSustained noteId (source note) (envelope note) (gain note) (filter_node note))
                500 s))"

text \<open>The source node and the base frequency \<open>startSustainedDrum\<close> picks for a drum type.\<close>

definition drumSource :: "string \<Rightarrow> node_kind \<times> js_value option" where
  "drumSource drumType =
     (if drumType = ''kick'' then (Oscillator (Number 60) ''sine'', Some (Number 60))
      else if drumType = ''snare'' then (Noise ''white'', None)
      else if includes_str drumType ''hat'' then (Noise ''white'', None)
      else (Oscillator (Number 200) ''triangle'', Some (Number 200)))"

definition startSustainedDrum :: "string \<Rightarrow> string \<Rightarrow> real \<Rightarrow> engine \<Rightarrow> string \<times> engine" where
  "startSustainedDrum drumType lid initialVelocity s =
     (case layers s lid of
        None \<Rightarrow> ([], s)
      | Some layer \<Rightarrow>
          if muted layer then ([], s)
          else
            (let drumId = lid @ ''-'' @ drumType @ ''-'' @ decimal (clock s);
                 (src, baseFreq) = drumSource drumType;
                 (source, s) = new_node src s;
                 (envelope, s) = new_node (AmplitudeEnvelope 0.01 0.1 0.6 0.2) s;
                 (gain, s) = new_node (Gain (initialVelocity * volume layer * 0.5)) s;
                 (filter, s) = new_node
                   (Filter (1000 + initialVelocity * 2000) ''lowpass'' (- 12) 1) s;
                 s = connect source (Node filter) s;
                 s = connect filter (Node envelope) s;
                 s = connect envelope (Node gain) s;
                 s = connect gain MasterGain s;
                 s = start source s;
                 s = trigger_envelope envelope triggerAttack s;
                 s = s\<lparr>sustainedNotes := (sustainedNotes s)(drumId \<mapsto>
                        \<lparr>source = source, envelope = envelope, gain = gain,
                         filter_node = filter, layerId = lid,
                         baseVolume = volume layer * 0.5, baseFrequency = baseFreq\<rparr>)\<rparr>
             in (drumId, s)))"

subsection \<open>Timers and promises\<close>

fun fire :: "callback \<Rightarrow> engine \<Rightarrow> engine" where
  "fire (CleanupDrum src env gn) s =
     dispose_unless_disposed gn (dispose_unless_disposed env (dispose_unless_disposed src s))"
| "fire (CleanupNote osc env gn) s =
     dispose gn (dispose env (dispose osc s))"
| "fire (CleanupSynth osc env gn effectChain) s =
     (let s = dispose gn (dispose env (dispose osc s))
      in if effectChain \<noteq> env then dispose effectChain s else s)"
| "fire (CleanupSustained noteId src env gn flt) s =
     (let s = dispose_unless_disposed flt
                (dispose_unless_disposed gn
                  (dispose_unless_disposed env (dispose_unless_disposed src s)))
      in s\<lparr>sustainedNotes := (sustainedNotes s)(noteId := None)\<rparr>)"

text \<open>The callbacks of a list of timers, called one after the other.\<close>

definition run :: "(nat \<times> callback) list \<Rightarrow> engine \<Rightarrow> engine" where
  "run es s = fold (\<lambda>e. fire (snd e)) es s"

text \<open>
  The clock moves on by \<open>dt\<close> milliseconds and the timers that are due by then run, the
  earliest first (timers due at the same time in the order they were set).
\<close>

definition advance :: "nat \<Rightarrow> engine \<Rightarrow> engine" where
  "advance dt s =
     (let t = clock s + dt;
          due = filter (\<lambda>e. fst e \<le> t) (timers s);
          later = filter (\<lambda>e. \<not> fst e \<le> t) (timers s)
      in run (sort_key fst due) (s\<lparr>clock := t, timers := later\<rparr>))"

fun resume_with :: "continuation \<Rightarrow> engine \<Rightarrow> engine" where
  "resume_with (RetrySample sampleId lid velocity) s = playSampleInternal sampleId lid velocity s"
| "resume_with (RetrySynth frequency lid velocity instrumentType synthParams) s =
     playAdvancedSynthInternal frequency lid velocity instrumentType synthParams s"

text \<open>The pending promises resolve: the context runs and the \<open>then\<close> callbacks are called.\<close>

definition settle :: "engine \<Rightarrow> engine" where
  "settle s =
     fold (\<lambda>e. resume_with (snd e)) (promises s) (s\<lparr>contextState := running, promises := []\<rparr>)"

subsection \<open>Sequences of one-shot triggers\<close>

text \<open>A call of one of the three one-shot entry points, and a sequence of them on a layer.\<close>

datatype one_shot =
    PlaySample string real
  | PlaySyntheticNote string real
  | PlayAdvancedSynth real real string "SynthParams option"

fun trigger_on :: "string \<Rightarrow> one_shot \<Rightarrow> engine \<Rightarrow> engine" where
  "trigger_on lid (PlaySample sampleId velocity) s = playSample sampleId lid velocity s"
| "trigger_on lid (PlaySyntheticNote note velocity) s = playSyntheticNote note lid velocity s"
| "trigger_on lid (PlayAdvancedSynth frequency velocity instrumentType synthParams) s =
     playAdvancedSynth frequency lid velocity instrumentType synthParams s"

section \<open>WAV export\<close>

text \<open>
  An \<open>AudioBuffer\<close>: its length in sample frames, its number of channels, its sample rate
  and the samples of each channel, \<open>getChannelData buffer channel i\<close> for
  \<open>buffer.getChannelData(channel)[i]\<close>. Samples are reals (a \<open>Float32Array\<close> without
  \<open>NaN\<close> and infinities; the product of a clamped sample and \<open>0x7FFF\<close> is exact in
  double arithmetic).
\<close>

type_synonym byte = "8 word"

record AudioBuffer =
  length_frames :: nat
  numberOfChannels :: nat
  sampleRate :: nat
  getChannelData :: "nat \<Rightarrow> nat \<Rightarrow> real"

text \<open>
  The \<open>DataView\<close> over the new \<open>ArrayBuffer\<close> is a list of bytes. A setter writes the
  bytes of its value at an offset and raises \<open>RangeError\<close>, here \<open>None\<close>, when they do not
  fit. The multi-byte setters are called with \<open>littleEndian = true\<close>; they take their
  argument modulo the width, and \<open>setInt16\<close> first drops the fraction of the number.
\<close>

definition put :: "nat \<Rightarrow> byte list \<Rightarrow> byte list \<Rightarrow> byte list option" where
  "put offset bs view =
     (if offset + length bs \<le> length view
      then Some (take offset view @ bs @ drop (offset + length bs) view)
      else None)"

definition le_bytes :: "nat \<Rightarrow> nat \<Rightarrow> byte list" where
  "le_bytes n v = map (\<lambda>j. of_nat (v div 256 ^ j)) [0..<n]"

definition setUint8 :: "nat \<Rightarrow> nat \<Rightarrow> byte list \<Rightarrow> byte list option" where
  "setUint8 offset v view = put offset (le_bytes 1 v) view"

definition setUint16 :: "nat \<Rightarrow> nat \<Rightarrow> byte list \<Rightarrow> byte list option" where
  "setUint16 offset v view = put offset (le_bytes 2 v) view"

definition setUint32 :: "nat \<Rightarrow> nat \<Rightarrow> byte list \<Rightarrow> byte list option" where
  "setUint32 offset v view = put offset (le_bytes 4 v) view"

definition js_trunc :: "real \<Rightarrow> int" where
  "js_trunc x = (if 0 \<le> x then \<lfloor>x\<rfloor> else \<lceil>x\<rceil>)"

definition setInt16 :: "nat \<Rightarrow> real \<Rightarrow> byte list \<Rightarrow> byte list option" where
  "setInt16 offset x view = put offset (le_bytes 2 (nat (js_trunc x mod 65536))) view"

fun for_loop :: "nat list \<Rightarrow> (nat \<Rightarrow> 'a \<Rightarrow> 'a option) \<Rightarrow> 'a \<Rightarrow> 'a option" where
  "for_loop [] body a = Some a"
| "for_loop (i # is) body a = body i a \<bind> for_loop is body"

definition writeString :: "nat \<Rightarrow> string \<Rightarrow> byte list \<Rightarrow> byte list option" where
  "writeString offset str view =
     for_loop [0..<length str] (\<lambda>i. setUint8 (offset + i) (of_char (str ! i))) view"

definition bufferToWAV :: "AudioBuffer \<Rightarrow> byte list option" where
  "bufferToWAV buffer =
     (let len = length_frames buffer;
          channels = numberOfChannels buffer;
          rate = sampleRate buffer;
          view = replicate (44 + len * channels * 2) 0
      in writeString 0 ''RIFF'' view
         \<bind> setUint32 4 (36 + len * channels * 2)
         \<bind> writeString 8 ''WAVE''
         \<bind> writeString 12 ''fmt ''
         \<bind> setUint32 16 16
         \<bind> setUint16 20 1
         \<bind> setUint16 22 channels
         \<bind> setUint32 24 rate
         \<bind> setUint32 28 (rate * channels * 2)
         \<bind> setUint16 32 (channels * 2)
         \<bind> setUint16 34 16
         \<bind> writeString 36 ''data''
         \<bind> setUint32 40 (len * channels * 2)
         \<bind> for_loop [0..<len] (\<lambda>i.
               for_loop [0..<channels] (\<lambda>channel.
                 setInt16 (44 + (i * channels + channel) * 2)
                   (max (- 1) (min 1 (getChannelData buffer channel i)) * 32767))))"

text \<open>
  Reading the file back: the getters of a \<open>DataView\<close> (little-endian), and a 16-bit
  sample on the scale the writer used, where 32767 stands for 1.
\<close>

definition getUint8 :: "nat \<Rightarrow> byte list \<Rightarrow> nat" where
  "getUint8 offset view = unat (view ! offset)"

definition getUint16 :: "nat \<Rightarrow> byte list \<Rightarrow> nat" where
  "getUint16 offset view = unat (view ! offset) + 256 * unat (view ! (offset + 1))"

definition getUint32 :: "nat \<Rightarrow> byte list \<Rightarrow> nat" where
  "getUint32 offset view =
     unat (view ! offset) + 256 * unat (view ! (offset + 1)) +
     65536 * unat (view ! (offset + 2)) + 16777216 * unat (view ! (offset + 3))"

definition getInt16 :: "nat \<Rightarrow> byte list \<Rightarrow> int" where
  "getInt16 offset view =
     (let u = int (getUint16 offset view) in if u < 32768 then u else u - 65536)"

definition decode_sample :: "int \<Rightarrow> real" where
  "decode_sample v = real_of_int v / 32767"

text \<open>
  The writes of \<open>bufferToWAV\<close> as a list of offsets and bytes, in the order they are made,
  and the effect of such a list on a view.
\<close>

fun puts :: "(nat \<times> byte list) list \<Rightarrow> byte list \<Rightarrow> byte list option" where
  "puts [] view = Some view"
| "puts (w # ws) view = put (fst w) (snd w) view \<bind> puts ws"

definition string_writes :: "nat \<Rightarrow> string \<Rightarrow> (nat \<times> byte list) list" where
  "string_writes offset str = map (\<lambda>i. (offset + i, le_bytes 1 (of_char (str ! i)))) [0..<length str]"

definition header_writes :: "AudioBuffer \<Rightarrow> (nat \<times> byte list) list" where
  "header_writes buffer =
     string_writes 0 ''RIFF'' @
     [(4, le_bytes 4 (36 + length_frames buffer * numberOfChannels buffer * 2))] @
     string_writes 8 ''WAVE'' @
     string_writes 12 ''fmt '' @
     [(16, le_bytes 4 16), (20, le_bytes 2 1), (22, le_bytes 2 (numberOfChannels buffer)),
      (24, le_bytes 4 (sampleRate buffer)),
      (28, le_bytes 4 (sampleRate buffer * numberOfChannels buffer * 2)),
      (32, le_bytes 2 (numberOfChannels buffer * 2)), (34, le_bytes 2 16)] @
     string_writes 36 ''data'' @
     [(40, le_bytes 4 (length_frames buffer * numberOfChannels buffer * 2))]"

definition sample_write :: "AudioBuffer \<Rightarrow> nat \<Rightarrow> nat \<Rightarrow> nat \<times> byte list" where
  "sample_write buffer i channel =
     (44 + (i * numberOfChannels buffer + channel) * 2,
      le_bytes 2 (nat (js_trunc (max (- 1) (min 1 (getChannelData buffer channel i)) * 32767)
                       mod 65536)))"

definition sample_writes :: "AudioBuffer \<Rightarrow> (nat \<times> byte list) list" where
  "sample_writes buffer =
     concat (map (\<lambda>i. map (sample_write buffer i) [0..<numberOfChannels buffer])
                 [0..<length_frames buffer])"

text \<open>
  The sizes that the 16-bit and 32-bit fields of the header can hold: a buffer within them
  has its channel count, rates and byte counts written without wrapping around.
\<close>

definition fits_header :: "AudioBuffer \<Rightarrow> bool" where
  "fits_header buffer =
     (numberOfChannels buffer * 2 < 65536 \<and>
      sampleRate buffer < 4294967296 \<and>
      sampleRate buffer * numberOfChannels buffer * 2 < 4294967296 \<and>
      36 + length_frames buffer * numberOfChannels buffer * 2 < 4294967296)"

text \<open>A buffer of one frame in one channel, whose sample lies above full scale.\<close>

definition loud_buffer :: AudioBuffer where
  "loud_buffer = \<lparr>length_frames = 1, numberOfChannels = 1, sampleRate = 44100,
                   getChannelData = (\<lambda>channel i. 2)\<rparr>"

text \<open>A stereo buffer of two frames.\<close>

definition stereo_buffer :: AudioBuffer where
  "stereo_buffer = \<lparr>length_frames = 2, numberOfChannels = 2, sampleRate = 44100,
                     getChannelData = (\<lambda>channel i. if channel = 0 then 0.5 else - 0.25)\<rparr>"

section \<open>Reading the graph\<close>








section \<open>Example states\<close>

definition piano :: AudioLayer where
  "piano = \<lparr>id_layer = ''piano'', name = ''Piano'', volume = 0.6, muted = False, solo = False,
             effects = []\<rparr>"

definition drums :: AudioLayer where
  "drums = \<lparr>id_layer = ''drums'', name = ''Drums'', volume = 0.8, muted = False, solo = False,
             effects = []\<rparr>"

definition piano_engine :: engine where
  "piano_engine = addLayer piano (new_engine running 0)"

text \<open>The A above middle C is held on the piano layer, with nothing else going on.\<close>

definition held_A4 :: engine where
  "held_A4 = snd (startSustainedNote ''A4'' ''piano'' 0.7 piano_engine)"

text \<open>A running engine with the drums layer and the kick sample loaded into the pool.\<close>

definition drums_engine :: engine where
  "drums_engine = (addLayer drums (new_engine running 0))\<lparr>bufferPool := [''kick'' \<mapsto> True]\<rparr>"

text \<open>An engine whose only layer is muted and whose context is still suspended.\<close>

definition silent_engine :: engine where
  "silent_engine = addLayer (drums\<lparr>muted := True\<rparr>) (new_engine suspended 0)"

section \<open>Properties of the pitch utility\<close>

subsection \<open>Twelfth roots of powers of two\<close>

lemma root12_lower: "0 \<le> a \<Longrightarrow> a ^ 12 \<le> 2 powr (real_of_int j) \<Longrightarrow> a \<le> 2 powr (real_of_int j / 12)"
proof -
  assume a: "0 \<le> a" and h: "a ^ 12 \<le> 2 powr (real_of_int j)"
  have "(2 powr (real_of_int j / 12)) ^ 12 = 2 powr (real_of_int j)"
    by (simp add: powr_power)
  with h have "a ^ 12 \<le> (2 powr (real_of_int j / 12)) ^ 12" by simp
  then show ?thesis using a by simp
qed

lemma root12_upper: "0 \<le> b \<Longrightarrow> 2 powr (real_of_int j) \<le> b ^ 12 \<Longrightarrow> 2 powr (real_of_int j / 12) \<le> b"
proof -
  assume b: "0 \<le> b" and h: "2 powr (real_of_int j) \<le> b ^ 12"
  have "(2 powr (real_of_int j / 12)) ^ 12 = 2 powr (real_of_int j)"
    by (simp add: powr_power)
  with h have "(2 powr (real_of_int j / 12)) ^ 12 \<le> b ^ 12" by simp
  then show ?thesis using b by simp
qed







subsection \<open>The computed and the tabulated frequencies\<close>




lemma equal_tempered_between:
  assumes "0 \<le> lo" "0 \<le> hi"
    and "(lo / 440) ^ 12 \<le> 2 powr (real_of_int (k - 57))"
    and "2 powr (real_of_int (k - 57)) \<le> (hi / 440) ^ 12"
  shows "lo \<le> equal_tempered k \<and> equal_tempered k \<le> hi"
proof -
  have "lo / 440 \<le> 2 powr (real_of_int (k - 57) / 12)"
    using assms(1,3) by (intro root12_lower) simp_all
  moreover have "2 powr (real_of_int (k - 57) / 12) \<le> hi / 440"
    using assms(2,4) by (intro root12_upper) simp_all
  ultimately show ?thesis by (simp add: equal_tempered_def field_simps)
qed

lemma table_48: "\<bar>261.63 - equal_tempered 48\<bar> \<le> 1 / 200"
proof -
  have "261625 / 1000 \<le> equal_tempered 48 \<and> equal_tempered 48 \<le> 261635 / 1000"
    by (rule equal_tempered_between) (simp_all add: powr_minus powr_numeral divide_simps)
  then show ?thesis unfolding abs_le_iff by simp
qed

lemma table_49: "\<bar>277.18 - equal_tempered 49\<bar> \<le> 1 / 200"
proof -
  have "277175 / 1000 \<le> equal_tempered 49 \<and> equal_tempered 49 \<le> 277185 / 1000"
    by (rule equal_tempered_between) (simp_all add: powr_minus powr_numeral divide_simps)
  then show ?thesis unfolding abs_le_iff by simp
qed

lemma table_50: "\<bar>293.66 - equal_tempered 50\<bar> \<le> 1 / 200"
proof -
  have "293655 / 1000 \<le> equal_tempered 50 \<and> equal_tempered 50 \<le> 293665 / 1000"
    by (rule equal_tempered_between) (simp_all add: powr_minus powr_numeral divide_simps)
  then show ?thesis unfolding abs_le_iff by simp
qed

lemma table_51: "\<bar>311.13 - equal_tempered 51\<bar> \<le> 1 / 200"
proof -
  have "311125 / 1000 \<le> equal_tempered 51 \<and> equal_tempered 51 \<le> 311135 / 1000"
    by (rule equal_tempered_between) (simp_all add: powr_minus powr_numeral divide_simps)
  then show ?thesis unfolding abs_le_iff by simp
qed

lemma table_52: "\<bar>329.63 - equal_tempered 52\<bar> \<le> 1 / 200"
proof -
  have "329625 / 1000 \<le> equal_tempered 52 \<and> equal_tempered 52 \<le> 329635 / 1000"
    by (rule equal_tempered_between) (simp_all add: powr_minus powr_numeral divide_simps)
  then show ?thesis unfolding abs_le_iff by simp
qed

lemma table_53: "\<bar>349.23 - equal_tempered 53\<bar> \<le> 1 / 200"
proof -
  have "349225 / 1000 \<le> equal_tempered 53 \<and> equal_tempered 53 \<le> 349235 / 1000"
    by (rule equal_tempered_between) (simp_all add: powr_minus powr_numeral divide_simps)
  then show ?thesis unfolding abs_le_iff by simp
qed

lemma table_54: "\<bar>369.99 - equal_tempered 54\<bar> \<le> 1 / 200"
proof -
  have "369985 / 1000 \<le> equal_tempered 54 \<and> equal_tempered 54 \<le> 369995 / 1000"
    by (rule equal_tempered_between) (simp_all add: powr_minus powr_numeral divide_simps)
  then show ?thesis unfolding abs_le_iff by simp
qed

lemma table_55: "\<bar>392.00 - equal_tempered 55\<bar> \<le> 1 / 200"
proof -
  have "391995 / 1000 \<le> equal_tempered 55 \<and> equal_tempered 55 \<le> 392005 / 1000"
    by (rule equal_tempered_between) (simp_all add: powr_minus powr_numeral divide_simps)
  then show ?thesis unfolding abs_le_iff by simp
qed

lemma table_56: "\<bar>415.30 - equal_tempered 56\<bar> \<le> 1 / 200"
proof -
  have "415295 / 1000 \<le> equal_tempered 56 \<and> equal_tempered 56 \<le> 415305 / 1000"
    by (rule equal_tempered_between) (simp_all add: powr_minus powr_numeral divide_simps)
  then show ?thesis unfolding abs_le_iff by simp
qed

lemma table_57: "\<bar>440.00 - equal_tempered 57\<bar> \<le> 1 / 200"
proof -
  have "439995 / 1000 \<le> equal_tempered 57 \<and> equal_tempered 57 \<le> 440005 / 1000"
    by (rule equal_tempered_between) (simp_all add: powr_minus powr_numeral divide_simps)
  then show ?thesis unfolding abs_le_iff by simp
qed

lemma table_58: "\<bar>466.16 - equal_tempered 58\<bar> \<le> 1 / 200"
proof -
  have "466155 / 1000 \<le> equal_tempered 58 \<and> equal_tempered 58 \<le> 466165 / 1000"
    by (rule equal_tempered_between) (simp_all add: powr_minus powr_numeral divide_simps)
  then show ?thesis unfolding abs_le_iff by simp
qed

lemma table_59: "\<bar>493.88 - equal_tempered 59\<bar> \<le> 1 / 200"
proof -
  have "493875 / 1000 \<le> equal_tempered 59 \<and> equal_tempered 59 \<le> 493885 / 1000"
    by (rule equal_tempered_between) (simp_all add: powr_minus powr_numeral divide_simps)
  then show ?thesis unfolding abs_le_iff by simp
qed

lemma table_entry:
  assumes "map_of simpleNoteMap n = Some t"
  shows "\<exists>k. note_index n = Some k \<and> \<bar>t - equal_tempered k\<bar> \<le> 1 / 200 \<and> 261 \<le> t"
proof -
  have idx: "note_index ''C4'' = Some 48" "note_index ''C#4'' = Some 49" "note_index ''D4'' = Some 50"
    "note_index ''D#4'' = Some 51" "note_index ''E4'' = Some 52" "note_index ''F4'' = Some 53"
    "note_index ''F#4'' = Some 54" "note_index ''G4'' = Some 55" "note_index ''G#4'' = Some 56"
    "note_index ''A4'' = Some 57" "note_index ''A#4'' = Some 58" "note_index ''B4'' = Some 59"
    by (simp_all add: note_index_def digits_def is_digit_def noteOffsets_def parseInt_def digit_value_def)
  have "\<forall>(n, t) \<in> set simpleNoteMap.
          \<exists>k. note_index n = Some k \<and> \<bar>t - equal_tempered k\<bar> \<le> 1 / 200 \<and> 261 \<le> t"
    unfolding simpleNoteMap_def
    using table_48 table_49 table_50 table_51 table_52 table_53 table_54 table_55 table_56
      table_57 table_58 table_59
    by (simp add: idx)
  moreover from assms have "(n, t) \<in> set simpleNoteMap" by (rule map_of_SomeD)
  ultimately show ?thesis by blast
qed










text \<open>
  A string that the regular expression rejects gets 440, unless it names a member that
  \<open>simpleNoteMap\<close> inherits from \<open>Object.prototype\<close>.
\<close>

lemma malformed_default:
  assumes "noteRegex note = None" and "note \<notin> set Object_prototype_keys"
  shows "noteToFrequency note = Number 440"
proof -
  have "map_of simpleNoteMap note = None"
  proof (cases "map_of simpleNoteMap note")
    case (Some t)
    from table_entry [OF Some] assms(1) show ?thesis by (auto simp: note_index_def)
  qed simp
  with assms show ?thesis
    by (simp add: noteToFrequency_def property_read_def fullNoteFormat_def)
qed

text \<open>
  Claim C7. Every string that does not match \<open>[A-G](#)?[0-9]+\<close> should get 440. The
  string \<open>toString\<close> does not match, yet \<open>simpleNoteMap[note]\<close> finds the inherited
  method, which is truthy, and \<open>noteToFrequency\<close> returns it instead of 440.
\<close>

theorem noteToFrequency_inherited_member:
  "noteRegex ''toString'' = None \<and>
   noteToFrequency ''toString'' = ProtoMember ''toString'' \<and>
   noteToFrequency ''toString'' \<noteq> Number 440"
  by (simp add: noteToFrequency_def property_read_def simpleNoteMap_def Object_prototype_keys_def)

section \<open>Sustained notes: modulation\<close>

subsection \<open>The example states, evaluated\<close>

lemma A4: "noteToFrequency ''A4'' = Number 440"
  by (simp add: noteToFrequency_def property_read_def simpleNoteMap_def)

lemmas node_ops = new_node_def map_node_def connect_def disconnect_def start_def trigger_envelope_def
  dispose_def disposed_def dispose_unless_disposed_def set_param_def setTimeout_def then_call_def

lemma held_A4_eq: "held_A4 =
  \<lparr>contextState = running, masterGain = 2, limiter = - 0.1, layers = [''piano'' \<mapsto> piano],
   activeSources = [''piano'' \<mapsto> []], bufferPool = Map.empty, globalInstrumentVolume = 0.5,
   sustainedNotes = [''piano-A4-0'' \<mapsto> \<lparr>source = 0, envelope = 1, gain = 2, filter_node = 3, layerId = ''piano'',
        baseVolume = 0.6 * 0.4, baseFrequency = Some (Number 440)\<rparr>],
   nodes = [\<lparr>kind = Oscillator (Number 440) ''sine'', started = True, disposals = 0, triggers = []\<rparr>,
            \<lparr>kind = AmplitudeEnvelope 0.001 0.05 0.9 0.1, started = False, disposals = 0, triggers = [triggerAttack]\<rparr>,
            \<lparr>kind = Gain (0.7 * 0.6 * 0.4), started = False, disposals = 0, triggers = []\<rparr>,
            \<lparr>kind = Filter (2000 + 0.7 * 2000) ''lowpass'' (- 24) 1, started = False, disposals = 0, triggers = []\<rparr>],
   edges = [(0, Node 3), (3, Node 1), (1, Node 2), (2, MasterGain)],
   timers = [], promises = [], clock = 0\<rparr>"
  by (simp add: held_A4_def startSustainedNote_def piano_engine_def addLayer_def piano_def new_engine_def Let_def node_ops decimal.simps A4 numeral_2_eq_2 numeral_3_eq_3)

lemma start_A4: "startSustainedNote ''A4'' ''piano'' 0.7 piano_engine = (''piano-A4-0'', held_A4)"
  by (simp add: held_A4_def startSustainedNote_def piano_engine_def addLayer_def piano_def new_engine_def Let_def node_ops decimal.simps)

subsection \<open>What a modulation writes\<close>

lemma filterFreq_facts:
  "(p < q \<longrightarrow> filterFreq p < filterFreq q) \<and> filterFreq 0 = 200 \<and> filterFreq 1 = 4000 \<and>
   (200 \<le> y \<and> y \<le> 4000 \<longrightarrow>
      0 \<le> (y - 200) / 3800 \<and> (y - 200) / 3800 \<le> 1 \<and> filterFreq ((y - 200) / 3800) = y)"
  by (simp add: filterFreq_def field_simps)







text \<open>
  Claim C10. When the id is registered and the layer of its entry is not in the layer map,
  \<open>modulateSustainedNote\<close> returns the state it was given: no gain, filter or oscillator
  parameter is written and the registry entry stays.
\<close>

theorem modulate_without_layer:
  "sustainedNotes s noteId = Some note \<Longrightarrow> layers s (layerId note) = None \<Longrightarrow>
     modulateSustainedNote noteId pressure s = s"
  by (simp add: modulateSustainedNote_def)

theorem modulate_without_layer_witness:
  "sustainedNotes (held_A4\<lparr>layers := Map.empty\<rparr>) ''piano-A4-0''
     = Some \<lparr>source = 0, envelope = 1, gain = 2, filter_node = 3, layerId = ''piano'',
             baseVolume = 0.6 * 0.4, baseFrequency = Some (Number 440)\<rparr> \<and>
   layers (held_A4\<lparr>layers := Map.empty\<rparr>) ''piano'' = None \<and>
   modulateSustainedNote ''piano-A4-0'' 0.3 (held_A4\<lparr>layers := Map.empty\<rparr>)
     = held_A4\<lparr>layers := Map.empty\<rparr>"
proof -
  let ?n = "\<lparr>source = 0, envelope = 1, gain = 2, filter_node = 3, layerId = ''piano'',
             baseVolume = 0.6 * 0.4, baseFrequency = Some (Number 440)\<rparr>"
  have a: "sustainedNotes (held_A4\<lparr>layers := Map.empty\<rparr>) ''piano-A4-0'' = Some ?n"
    by (simp add: held_A4_eq)
  have b: "layers (held_A4\<lparr>layers := Map.empty\<rparr>) (layerId ?n) = None"
    by simp
  from a b modulate_without_layer [OF a b, of "0.3"] show ?thesis by simp
qed

section \<open>Sustained notes: start, stop and the cleanup timer\<close>

subsection \<open>Disposing nodes\<close>

lemma dispose_frame [simp]:
  "length (nodes (dispose i s)) = length (nodes s)"
  "sustainedNotes (dispose i s) = sustainedNotes s"
  "timers (dispose i s) = timers s" "clock (dispose i s) = clock s"
  "layers (dispose i s) = layers s"
  by (simp_all add: dispose_def map_node_def disconnect_def)

lemma dispose_unless_frame [simp]:
  "length (nodes (dispose_unless_disposed i s)) = length (nodes s)"
  "sustainedNotes (dispose_unless_disposed i s) = sustainedNotes s"
  "timers (dispose_unless_disposed i s) = timers s" "clock (dispose_unless_disposed i s) = clock s"
  "layers (dispose_unless_disposed i s) = layers s"
  by (simp_all add: dispose_unless_disposed_def)

lemma disposed_registry_update [simp]:
  "disposed (s\<lparr>sustainedNotes := r\<rparr>) j = disposed s j"
  by (simp add: disposed_def)

lemma disposed_dispose: "disposed s j \<Longrightarrow> disposed (dispose i s) j"
  by (cases "i < length (nodes s)")
     (auto simp: disposed_def dispose_def map_node_def disconnect_def nth_list_update
        list_update_beyond not_less)

lemma disposed_dispose_same: "i < length (nodes s) \<Longrightarrow> disposed (dispose i s) i"
  by (simp add: disposed_def dispose_def map_node_def disconnect_def)

lemma disposed_unless: "disposed s j \<Longrightarrow> disposed (dispose_unless_disposed i s) j"
  by (simp add: dispose_unless_disposed_def disposed_dispose)

lemma disposed_unless_same: "i < length (nodes s) \<Longrightarrow> disposed (dispose_unless_disposed i s) i"
  by (simp add: dispose_unless_disposed_def disposed_dispose_same)



subsection \<open>Timer callbacks\<close>

lemma fire_length [simp]: "length (nodes (fire cb s)) = length (nodes s)"
  by (cases cb) (simp_all add: Let_def)

lemma fire_clock [simp]: "clock (fire cb s) = clock s"
  by (cases cb) (simp_all add: Let_def)

lemma fire_layers [simp]: "layers (fire cb s) = layers s"
  by (cases cb) (simp_all add: Let_def)

lemma fire_timers [simp]: "timers (fire cb s) = timers s"
  by (cases cb) (simp_all add: Let_def)

lemma fire_disposed: "disposed s j \<Longrightarrow> disposed (fire cb s) j"
  by (cases cb) (simp_all add: Let_def disposed_dispose disposed_unless)

lemma fire_absent: "sustainedNotes s k = None \<Longrightarrow> sustainedNotes (fire cb s) k = None"
  by (cases cb) (simp_all add: Let_def)



lemma fire_cleanup:
  "sustainedNotes (fire (CleanupSustained k a b c d) s) k = None"
  "a < length (nodes s) \<Longrightarrow> disposed (fire (CleanupSustained k a b c d) s) a"
  "b < length (nodes s) \<Longrightarrow> disposed (fire (CleanupSustained k a b c d) s) b"
  "c < length (nodes s) \<Longrightarrow> disposed (fire (CleanupSustained k a b c d) s) c"
  "d < length (nodes s) \<Longrightarrow> disposed (fire (CleanupSustained k a b c d) s) d"
  by (simp_all add: Let_def disposed_unless disposed_unless_same)

lemma run_simps [simp]: "run [] s = s" "run (e # es) s = run es (fire (snd e) s)"
  "run (xs @ ys) s = run ys (run xs s)"
  by (simp_all add: run_def)

lemma run_length [simp]: "length (nodes (run es s)) = length (nodes s)"
  by (induction es arbitrary: s) simp_all

lemma run_disposed: "disposed s j \<Longrightarrow> disposed (run es s) j"
  by (induction es arbitrary: s) (simp_all add: fire_disposed)

lemma run_absent: "sustainedNotes s k = None \<Longrightarrow> sustainedNotes (run es s) k = None"
  by (induction es arbitrary: s) (simp_all add: fire_absent)

lemma run_cleanup:
  assumes "(t, CleanupSustained k a b c d) \<in> set es"
  shows "sustainedNotes (run es s) k = None"
    and "a < length (nodes s) \<Longrightarrow> disposed (run es s) a"
    and "b < length (nodes s) \<Longrightarrow> disposed (run es s) b"
    and "c < length (nodes s) \<Longrightarrow> disposed (run es s) c"
    and "d < length (nodes s) \<Longrightarrow> disposed (run es s) d"
proof -
  from assms obtain xs ys where es: "es = xs @ (t, CleanupSustained k a b c d) # ys"
    by (auto dest: split_list)
  show "sustainedNotes (run es s) k = None"
    unfolding es by (simp add: run_absent fire_cleanup del: fire.simps)
  show "disposed (run es s) a" if "a < length (nodes s)"
    unfolding es using that by (simp add: run_disposed fire_cleanup del: fire.simps)
  show "disposed (run es s) b" if "b < length (nodes s)"
    unfolding es using that by (simp add: run_disposed fire_cleanup del: fire.simps)
  show "disposed (run es s) c" if "c < length (nodes s)"
    unfolding es using that by (simp add: run_disposed fire_cleanup del: fire.simps)
  show "disposed (run es s) d" if "d < length (nodes s)"
    unfolding es using that by (simp add: run_disposed fire_cleanup del: fire.simps)
qed


subsection \<open>Advancing the clock\<close>

lemma advance_run:
  "advance dt s = run (sort_key fst (filter (\<lambda>e. fst e \<le> clock s + dt) (timers s)))
     (s\<lparr>clock := clock s + dt, timers := filter (\<lambda>e. \<not> fst e \<le> clock s + dt) (timers s)\<rparr>)"
  by (simp add: advance_def Let_def)


lemma stop_registered:
  assumes "sustainedNotes s k = Some note"
  shows "timers (stopSustainedNote k s) = timers s @
      [(clock s + 500, CleanupSustained k (source note) (envelope note) (gain note) (filter_node note))]"
    and "clock (stopSustainedNote k s) = clock s"
    and "length (nodes (stopSustainedNote k s)) = length (nodes s)"
    and "sustainedNotes (stopSustainedNote k s) = sustainedNotes s"
  using assms by (simp_all add: stopSustainedNote_def Let_def setTimeout_def trigger_envelope_def map_node_def)

lemma stop_then_advance:
  assumes n: "sustainedNotes s k = Some note" and dt: "500 \<le> dt"
  shows "sustainedNotes (advance dt (stopSustainedNote k s)) k = None"
    and "source note < length (nodes s) \<Longrightarrow> disposed (advance dt (stopSustainedNote k s)) (source note)"
    and "envelope note < length (nodes s) \<Longrightarrow> disposed (advance dt (stopSustainedNote k s)) (envelope note)"
    and "gain note < length (nodes s) \<Longrightarrow> disposed (advance dt (stopSustainedNote k s)) (gain note)"
    and "filter_node note < length (nodes s) \<Longrightarrow> disposed (advance dt (stopSustainedNote k s)) (filter_node note)"
proof -
  let ?cb = "CleanupSustained k (source note) (envelope note) (gain note) (filter_node note)"
  let ?s1 = "stopSustainedNote k s"
  let ?due = "sort_key fst (filter (\<lambda>e. fst e \<le> clock ?s1 + dt) (timers ?s1))"
  have "(clock s + 500, ?cb) \<in> set ?due"
    using dt by (simp add: stop_registered [OF n])
  note r = run_cleanup [OF this]
  show "sustainedNotes (advance dt ?s1) k = None"
    by (simp only: advance_run r)
  show "disposed (advance dt ?s1) (source note)" if "source note < length (nodes s)"
    using that by (simp only: advance_run) (rule r, simp add: stop_registered [OF n])
  show "disposed (advance dt ?s1) (envelope note)" if "envelope note < length (nodes s)"
    using that by (simp only: advance_run) (rule r, simp add: stop_registered [OF n])
  show "disposed (advance dt ?s1) (gain note)" if "gain note < length (nodes s)"
    using that by (simp only: advance_run) (rule r, simp add: stop_registered [OF n])
  show "disposed (advance dt ?s1) (filter_node note)" if "filter_node note < length (nodes s)"
    using that by (simp only: advance_run) (rule r, simp add: stop_registered [OF n])
qed


subsection \<open>Starting a note\<close>

lemma startSustainedNote_muted:
  "layers s lid = None \<or> (\<exists>layer. layers s lid = Some layer \<and> muted layer) \<Longrightarrow>
     startSustainedNote note lid v s = ([], s)"
  by (auto simp: startSustainedNote_def)

lemma startSustainedDrum_muted:
  "layers s lid = None \<or> (\<exists>layer. layers s lid = Some layer \<and> muted layer) \<Longrightarrow>
     startSustainedDrum drumType lid v s = ([], s)"
  by (auto simp: startSustainedDrum_def)

lemma startSustainedNote_unmuted:
  assumes "layers s lid = Some layer" "\<not> muted layer"
  shows "startSustainedNote note lid v s =
    (lid @ ''-'' @ note @ ''-'' @ decimal (clock s),
     s\<lparr>nodes := nodes s @
          [\<lparr>kind = Oscillator (noteToFrequency note) ''sine'', started = True, disposals = 0, triggers = []\<rparr>,
           \<lparr>kind = AmplitudeEnvelope 0.001 0.05 0.9 0.1, started = False, disposals = 0,
             triggers = [triggerAttack]\<rparr>,
           \<lparr>kind = Gain (v * volume layer * 0.4), started = False, disposals = 0, triggers = []\<rparr>,
           \<lparr>kind = Filter (2000 + v * 2000) ''lowpass'' (- 24) 1, started = False, disposals = 0,
             triggers = []\<rparr>],
       edges := edges s @
          [(length (nodes s), Node (length (nodes s) + 3)),
           (length (nodes s) + 3, Node (length (nodes s) + 1)),
           (length (nodes s) + 1, Node (length (nodes s) + 2)),
           (length (nodes s) + 2, MasterGain)],
       sustainedNotes := (sustainedNotes s)(lid @ ''-'' @ note @ ''-'' @ decimal (clock s) \<mapsto>
          \<lparr>source = length (nodes s), envelope = length (nodes s) + 1, gain = length (nodes s) + 2,
           filter_node = length (nodes s) + 3, layerId = lid, baseVolume = volume layer * 0.4,
           baseFrequency = Some (noteToFrequency note)\<rparr>)\<rparr>)"
  using assms
  by (simp add: startSustainedNote_def Let_def new_node_def map_node_def connect_def start_def
      trigger_envelope_def nth_append list_update_append numeral_3_eq_3)

lemma startSustainedDrum_unmuted:
  assumes "layers s lid = Some layer" "\<not> muted layer"
  shows "startSustainedDrum drumType lid v s =
    (lid @ ''-'' @ drumType @ ''-'' @ decimal (clock s),
     s\<lparr>nodes := nodes s @
          [\<lparr>kind = fst (drumSource drumType), started = True, disposals = 0, triggers = []\<rparr>,
           \<lparr>kind = AmplitudeEnvelope 0.01 0.1 0.6 0.2, started = False, disposals = 0,
             triggers = [triggerAttack]\<rparr>,
           \<lparr>kind = Gain (v * volume layer * 0.5), started = False, disposals = 0, triggers = []\<rparr>,
           \<lparr>kind = Filter (1000 + v * 2000) ''lowpass'' (- 12) 1, started = False, disposals = 0,
             triggers = []\<rparr>],
       edges := edges s @
          [(length (nodes s), Node (length (nodes s) + 3)),
           (length (nodes s) + 3, Node (length (nodes s) + 1)),
           (length (nodes s) + 1, Node (length (nodes s) + 2)),
           (length (nodes s) + 2, MasterGain)],
       sustainedNotes := (sustainedNotes s)(lid @ ''-'' @ drumType @ ''-'' @ decimal (clock s) \<mapsto>
          \<lparr>source = length (nodes s), envelope = length (nodes s) + 1, gain = length (nodes s) + 2,
           filter_node = length (nodes s) + 3, layerId = lid, baseVolume = volume layer * 0.5,
           baseFrequency = snd (drumSource drumType)\<rparr>)\<rparr>)"
  using assms
  by (simp add: startSustainedDrum_def Let_def new_node_def map_node_def connect_def start_def
      trigger_envelope_def nth_append list_update_append numeral_3_eq_3 split: prod.splits)


lemma started_entry:
  assumes l: "layers s lid = Some layer" "\<not> muted layer"
    and st: "startSustainedNote note lid v s = (k, s') \<or> startSustainedDrum note lid v s = (k, s')"
  shows "k = lid @ ''-'' @ note @ ''-'' @ decimal (clock s)"
    and "\<exists>entry. sustainedNotes s' = (sustainedNotes s)(k \<mapsto> entry) \<and>
           source entry = length (nodes s) \<and> envelope entry = length (nodes s) + 1 \<and>
           gain entry = length (nodes s) + 2 \<and> filter_node entry = length (nodes s) + 3 \<and>
           layerId entry = lid"
    and "length (nodes s') = length (nodes s) + 4"
    and "take (length (nodes s)) (nodes s') = nodes s"
    and "triggers (nodes s' ! (length (nodes s) + 1)) = [triggerAttack]"
    and "disposals (nodes s' ! length (nodes s)) = 0"
    and "disposals (nodes s' ! (length (nodes s) + 1)) = 0"
    and "disposals (nodes s' ! (length (nodes s) + 2)) = 0"
    and "disposals (nodes s' ! (length (nodes s) + 3)) = 0"
    and "timers s' = timers s" and "promises s' = promises s" and "clock s' = clock s"
proof -
  from st have
    "k = lid @ ''-'' @ note @ ''-'' @ decimal (clock s) \<and>
     (\<exists>entry. sustainedNotes s' = (sustainedNotes s)(k \<mapsto> entry) \<and>
           source entry = length (nodes s) \<and> envelope entry = length (nodes s) + 1 \<and>
           gain entry = length (nodes s) + 2 \<and> filter_node entry = length (nodes s) + 3 \<and>
           layerId entry = lid) \<and>
     length (nodes s') = length (nodes s) + 4 \<and>
     take (length (nodes s)) (nodes s') = nodes s \<and>
     triggers (nodes s' ! (length (nodes s) + 1)) = [triggerAttack] \<and>
     disposals (nodes s' ! length (nodes s)) = 0 \<and>
     disposals (nodes s' ! (length (nodes s) + 1)) = 0 \<and>
     disposals (nodes s' ! (length (nodes s) + 2)) = 0 \<and>
     disposals (nodes s' ! (length (nodes s) + 3)) = 0 \<and>
     timers s' = timers s \<and> promises s' = promises s \<and> clock s' = clock s"
  proof
    assume "startSustainedNote note lid v s = (k, s')"
    then have k: "k = fst (startSustainedNote note lid v s)"
      and s': "s' = snd (startSustainedNote note lid v s)"
      by simp_all
    show ?thesis
      unfolding k s' startSustainedNote_unmuted [OF l]
      by (simp add: nth_append) (rule exI, rule conjI, rule refl, simp)
  next
    assume "startSustainedDrum note lid v s = (k, s')"
    then have k: "k = fst (startSustainedDrum note lid v s)"
      and s': "s' = snd (startSustainedDrum note lid v s)"
      by simp_all
    show ?thesis
      unfolding k s' startSustainedDrum_unmuted [OF l]
      by (simp add: nth_append) (rule exI, rule conjI, rule refl, simp)
  qed
  then show "k = lid @ ''-'' @ note @ ''-'' @ decimal (clock s)"
    and "\<exists>entry. sustainedNotes s' = (sustainedNotes s)(k \<mapsto> entry) \<and>
           source entry = length (nodes s) \<and> envelope entry = length (nodes s) + 1 \<and>
           gain entry = length (nodes s) + 2 \<and> filter_node entry = length (nodes s) + 3 \<and>
           layerId entry = lid"
    and "length (nodes s') = length (nodes s) + 4"
    and "take (length (nodes s)) (nodes s') = nodes s"
    and "triggers (nodes s' ! (length (nodes s) + 1)) = [triggerAttack]"
    and "disposals (nodes s' ! length (nodes s)) = 0"
    and "disposals (nodes s' ! (length (nodes s) + 1)) = 0"
    and "disposals (nodes s' ! (length (nodes s) + 2)) = 0"
    and "disposals (nodes s' ! (length (nodes s) + 3)) = 0"
    and "timers s' = timers s" and "promises s' = promises s" and "clock s' = clock s"
    by blast+
qed





subsection \<open>Stopping a note\<close>

lemma stop_absent: "sustainedNotes s k = None \<Longrightarrow> stopSustainedNote k s = s"
  by (simp add: stopSustainedNote_def)

lemma stop_twice:
  assumes n: "sustainedNotes s k = Some note"
  shows "timers (stopSustainedNote k (stopSustainedNote k s)) = timers s @
      [(clock s + 500, CleanupSustained k (source note) (envelope note) (gain note) (filter_node note)),
       (clock s + 500, CleanupSustained k (source note) (envelope note) (gain note) (filter_node note))]"
    and "clock (stopSustainedNote k (stopSustainedNote k s)) = clock s"
    and "length (nodes (stopSustainedNote k (stopSustainedNote k s))) = length (nodes s)"
    and "sustainedNotes (stopSustainedNote k (stopSustainedNote k s)) = sustainedNotes s"
proof -
  have n': "sustainedNotes (stopSustainedNote k s) k = Some note"
    using n by (simp add: stop_registered [OF n])
  show "timers (stopSustainedNote k (stopSustainedNote k s)) = timers s @
      [(clock s + 500, CleanupSustained k (source note) (envelope note) (gain note) (filter_node note)),
       (clock s + 500, CleanupSustained k (source note) (envelope note) (gain note) (filter_node note))]"
    by (simp add: stop_registered [OF n'] stop_registered [OF n])
  show "clock (stopSustainedNote k (stopSustainedNote k s)) = clock s"
    by (simp add: stop_registered [OF n'] stop_registered [OF n])
  show "length (nodes (stopSustainedNote k (stopSustainedNote k s))) = length (nodes s)"
    by (simp add: stop_registered [OF n'] stop_registered [OF n])
  show "sustainedNotes (stopSustainedNote k (stopSustainedNote k s)) = sustainedNotes s"
    by (simp add: stop_registered [OF n'] stop_registered [OF n])
qed

lemma stop_twice_then_advance:
  assumes n: "sustainedNotes s k = Some note" and dt: "500 \<le> dt"
  shows "sustainedNotes (advance dt (stopSustainedNote k (stopSustainedNote k s))) k = None"
proof -
  let ?cb = "CleanupSustained k (source note) (envelope note) (gain note) (filter_node note)"
  let ?s2 = "stopSustainedNote k (stopSustainedNote k s)"
  have "(clock s + 500, ?cb) \<in> set (sort_key fst (filter (\<lambda>e. fst e \<le> clock ?s2 + dt) (timers ?s2)))"
    using dt by (simp add: stop_twice [OF n])
  from run_cleanup(1) [OF this] show ?thesis by (simp only: advance_run)
qed

lemma dispose_unless_disposed_idle: "disposed s i \<Longrightarrow> dispose_unless_disposed i s = s"
  by (simp add: dispose_unless_disposed_def)

lemma cleanup_when_disposed:
  "disposed t a \<Longrightarrow> disposed t b \<Longrightarrow> disposed t c \<Longrightarrow> disposed t d \<Longrightarrow>
     fire (CleanupSustained k a b c d) t = t\<lparr>sustainedNotes := (sustainedNotes t)(k := None)\<rparr>"
  by (simp add: dispose_unless_disposed_idle Let_def)

lemma cleanup_idempotent:
  assumes "a < length (nodes s)" "b < length (nodes s)" "c < length (nodes s)" "d < length (nodes s)"
  shows "fire (CleanupSustained k a b c d) (fire (CleanupSustained k a b c d) s)
    = fire (CleanupSustained k a b c d) s"
proof -
  let ?s1 = "fire (CleanupSustained k a b c d) s"
  have d: "disposed ?s1 a" "disposed ?s1 b" "disposed ?s1 c" "disposed ?s1 d"
    using assms by (simp_all add: fire_cleanup del: fire.simps)
  have r: "sustainedNotes ?s1 k = None" by (simp add: fire_cleanup del: fire.simps)
  have "fire (CleanupSustained k a b c d) ?s1 = ?s1\<lparr>sustainedNotes := (sustainedNotes ?s1)(k := None)\<rparr>"
    using d by (rule cleanup_when_disposed)
  also have "\<dots> = ?s1" using r by (simp add: fun_upd_idem del: fire.simps)
  finally show ?thesis .
qed






text \<open>
  Claim C5. Stopping an id that is not registered changes nothing. For a registered id:
  500 ms or more after the stop the registry no longer has the id, and a second stop at
  that point changes nothing; a second stop made at once leaves the registry and the number
  of nodes as they are, and after the 500 ms the id is gone just the same. The cleanup
  callback guards every \<open>dispose\<close>, so running it twice is the same as running it once.
  In particular, after \<open>startSustainedNote\<close> and \<open>stopSustainedNote\<close> on the returned
  id the registry does not contain the id once 500 ms have passed.
\<close>

theorem stopSustainedNote_protocol:
  "(sustainedNotes s absentId = None \<longrightarrow> stopSustainedNote absentId s = s) \<and>
   (sustainedNotes s k = Some entry \<and> 500 \<le> dt \<longrightarrow>
      sustainedNotes (advance dt (stopSustainedNote k s)) k = None \<and>
      stopSustainedNote k (advance dt (stopSustainedNote k s)) = advance dt (stopSustainedNote k s) \<and>
      sustainedNotes (stopSustainedNote k (stopSustainedNote k s)) = sustainedNotes s \<and>
      length (nodes (stopSustainedNote k (stopSustainedNote k s))) = length (nodes s) \<and>
      sustainedNotes (advance dt (stopSustainedNote k (stopSustainedNote k s))) k = None) \<and>
   (a < length (nodes s) \<and> b < length (nodes s) \<and> c < length (nodes s) \<and> d < length (nodes s) \<longrightarrow>
      fire (CleanupSustained k a b c d) (fire (CleanupSustained k a b c d) s)
        = fire (CleanupSustained k a b c d) s) \<and>
   (layers s lid = Some layer \<and> \<not> muted layer \<and>
    startSustainedNote note lid v s = (k', s1) \<and> 500 \<le> dt \<longrightarrow>
      sustainedNotes s1 k' \<noteq> None \<and>
      sustainedNotes (advance dt (stopSustainedNote k' s1)) k' = None)"
proof (intro conjI impI)
  assume "sustainedNotes s absentId = None"
  then show "stopSustainedNote absentId s = s" by (rule stop_absent)
next
  assume h: "sustainedNotes s k = Some entry \<and> 500 \<le> dt"
  then have n: "sustainedNotes s k = Some entry" and dt: "500 \<le> dt" by simp_all
  show r: "sustainedNotes (advance dt (stopSustainedNote k s)) k = None"
    by (rule stop_then_advance [OF n dt])
  then show "stopSustainedNote k (advance dt (stopSustainedNote k s)) = advance dt (stopSustainedNote k s)"
    by (rule stop_absent)
  show "sustainedNotes (stopSustainedNote k (stopSustainedNote k s)) = sustainedNotes s"
    by (rule stop_twice [OF n])
  show "length (nodes (stopSustainedNote k (stopSustainedNote k s))) = length (nodes s)"
    by (rule stop_twice [OF n])
  show "sustainedNotes (advance dt (stopSustainedNote k (stopSustainedNote k s))) k = None"
    by (rule stop_twice_then_advance [OF n dt])
next
  assume "a < length (nodes s) \<and> b < length (nodes s) \<and> c < length (nodes s) \<and> d < length (nodes s)"
  then show "fire (CleanupSustained k a b c d) (fire (CleanupSustained k a b c d) s)
        = fire (CleanupSustained k a b c d) s"
    by (simp add: cleanup_idempotent del: fire.simps)
next
  assume h: "layers s lid = Some layer \<and> \<not> muted layer \<and>
    startSustainedNote note lid v s = (k', s1) \<and> 500 \<le> dt"
  then have l: "layers s lid = Some layer" "\<not> muted layer"
    and st: "startSustainedNote note lid v s = (k', s1) \<or> startSustainedDrum note lid v s = (k', s1)"
    and dt: "500 \<le> dt"
    by simp_all
  from started_entry(2) [OF l st] obtain e where n: "sustainedNotes s1 k' = Some e" by auto
  then show "sustainedNotes s1 k' \<noteq> None" by simp
  show "sustainedNotes (advance dt (stopSustainedNote k' s1)) k' = None"
    by (rule stop_then_advance [OF n dt])
qed

theorem stopSustainedNote_protocol_witness:
  "(sustainedNotes held_A4 ''piano-C4-0'' = None \<and>
    stopSustainedNote ''piano-C4-0'' held_A4 = held_A4) \<and>
   (sustainedNotes held_A4 ''piano-A4-0''
      = Some \<lparr>source = 0, envelope = 1, gain = 2, filter_node = 3, layerId = ''piano'',
              baseVolume = 0.6 * 0.4, baseFrequency = Some (Number 440)\<rparr> \<and>
    (500 :: nat) \<le> 500 \<and>
    sustainedNotes (advance 500 (stopSustainedNote ''piano-A4-0'' held_A4)) ''piano-A4-0'' = None \<and>
    stopSustainedNote ''piano-A4-0'' (advance 500 (stopSustainedNote ''piano-A4-0'' held_A4))
      = advance 500 (stopSustainedNote ''piano-A4-0'' held_A4) \<and>
    sustainedNotes
      (advance 500 (stopSustainedNote ''piano-A4-0'' (stopSustainedNote ''piano-A4-0'' held_A4)))
      ''piano-A4-0'' = None) \<and>
   ((0 :: nat) < length (nodes held_A4) \<and> 1 < length (nodes held_A4) \<and>
    2 < length (nodes held_A4) \<and> 3 < length (nodes held_A4) \<and>
    fire (CleanupSustained ''piano-A4-0'' 0 1 2 3)
      (fire (CleanupSustained ''piano-A4-0'' 0 1 2 3) held_A4)
      = fire (CleanupSustained ''piano-A4-0'' 0 1 2 3) held_A4) \<and>
   (layers piano_engine ''piano'' = Some piano \<and> \<not> muted piano \<and>
    startSustainedNote ''A4'' ''piano'' 0.7 piano_engine = (''piano-A4-0'', held_A4))"
proof -
  let ?n = "\<lparr>source = 0, envelope = 1, gain = 2, filter_node = 3, layerId = ''piano'',
             baseVolume = 0.6 * 0.4, baseFrequency = Some (Number 440)\<rparr>"
  have a: "sustainedNotes held_A4 ''piano-C4-0'' = None"
    "sustainedNotes held_A4 ''piano-A4-0'' = Some ?n" "length (nodes held_A4) = 4"
    by (simp_all add: held_A4_eq)
  have c: "layers piano_engine ''piano'' = Some piano \<and> \<not> muted piano \<and>
    startSustainedNote ''A4'' ''piano'' 0.7 piano_engine = (''piano-A4-0'', held_A4)"
    by (simp add: start_A4) (simp add: piano_engine_def addLayer_def new_engine_def piano_def)
  from a c
    stopSustainedNote_protocol [of held_A4 "''piano-C4-0''" "''piano-A4-0''" ?n 500 0 1 2 3
      "''piano''" piano "''A4''" "0.7" "''piano-A4-0''" held_A4]
    stopSustainedNote_protocol [of piano_engine "''piano-C4-0''" "''piano-A4-0''" ?n 500 0 1 2 3
      "''piano''" piano "''A4''" "0.7" "''piano-A4-0''" held_A4]
  show ?thesis by (simp del: fire.simps)
qed

section \<open>One-shot playback\<close>

subsection \<open>The sample pool\<close>

lemma node_ops_pool [simp]:
  "new_node k (s\<lparr>bufferPool := pool\<rparr>) = (fst (new_node k s), (snd (new_node k s))\<lparr>bufferPool := pool\<rparr>)"
  "connect a b (s\<lparr>bufferPool := pool\<rparr>) = (connect a b s)\<lparr>bufferPool := pool\<rparr>"
  "disconnect a (s\<lparr>bufferPool := pool\<rparr>) = (disconnect a s)\<lparr>bufferPool := pool\<rparr>"
  "start a (s\<lparr>bufferPool := pool\<rparr>) = (start a s)\<lparr>bufferPool := pool\<rparr>"
  "trigger_envelope a t (s\<lparr>bufferPool := pool\<rparr>) = (trigger_envelope a t s)\<lparr>bufferPool := pool\<rparr>"
  "setTimeout cb ms (s\<lparr>bufferPool := pool\<rparr>) = (setTimeout cb ms s)\<lparr>bufferPool := pool\<rparr>"
  "then_call p c (s\<lparr>bufferPool := pool\<rparr>) = (then_call p c s)\<lparr>bufferPool := pool\<rparr>"
  by (simp_all add: node_ops)

lemma playSyntheticDrum_pool:
  "playSyntheticDrum t v (s\<lparr>bufferPool := pool\<rparr>) = (playSyntheticDrum t v s)\<lparr>bufferPool := pool\<rparr>"
  by (simp add: playSyntheticDrum_def Let_def split_beta)

lemma playSample_pool:
  "playSample sampleId lid velocity (s\<lparr>bufferPool := pool\<rparr>)
     = (playSample sampleId lid velocity s)\<lparr>bufferPool := pool\<rparr>"
  by (simp add: playSample_def playSampleInternal_def playSyntheticDrum_pool split: option.splits)

text \<open>
  Claim C3. With the layer present and not muted and a loaded buffer for the sample id in
  the pool, playback should use the loaded sample. On the engine with the loaded kick
  sample, \<open>playSample\<close> builds the synthetic kick instead, a 60 Hz sine oscillator with
  its envelope and gain, and no \<open>Player\<close>: \<open>playSampleInternal\<close> plays the synthetic
  drum and returns before the code that would use the buffer.
\<close>

theorem playSample_ignores_loaded_buffer:
  "layers drums_engine ''drums'' = Some drums \<and> \<not> muted drums \<and>
   contextState drums_engine = running \<and> bufferPool drums_engine ''kick'' = Some True \<and>
   map kind (nodes (playSample ''kick'' ''drums'' 1 drums_engine))
     = [Oscillator (Number 60) ''sine'', AmplitudeEnvelope 0.01 0.2 0 0.3, Gain 0.4]"
  by (simp add: drums_engine_def drums_def addLayer_def new_engine_def playSample_def
      playSampleInternal_def playSyntheticDrum_def createDrumSound_def Let_def node_ops)

subsection \<open>Muted layers\<close>

lemma muted_returns:
  assumes "layers s lid = Some layer" "muted layer"
  shows "playSample sampleId lid velocity s = s"
    and "playSampleInternal sampleId lid velocity s = s"
    and "playSyntheticNote note lid velocity s = s"
    and "playAdvancedSynthInternal frequency lid velocity instrumentType synthParams s = s"
  using assms
  by (simp_all add: playSample_def playSampleInternal_def playSyntheticNote_def
      playAdvancedSynthInternal_def)

lemma trigger_on_muted:
  assumes "layers s lid = Some layer" "muted layer"
  shows "\<exists>ps. trigger_on lid op s = s\<lparr>promises := promises s @ ps\<rparr> \<and>
           (contextState s \<noteq> suspended \<longrightarrow> ps = []) \<and>
           list_all (\<lambda>e. \<exists>f v i p. snd e = RetrySynth f lid v i p) ps"
proof (cases op)
  case (PlayAdvancedSynth f v i p)
  show ?thesis
  proof (cases "contextState s = suspended")
    case True
    then have "trigger_on lid op s = s\<lparr>promises := promises s @ [(context_resume, RetrySynth f lid v i p)]\<rparr>"
      by (simp add: PlayAdvancedSynth playAdvancedSynth_def then_call_def)
    with True show ?thesis by (intro exI [of _ "[(context_resume, RetrySynth f lid v i p)]"]) auto
  next
    case False
    then have "trigger_on lid op s = s\<lparr>promises := promises s @ []\<rparr>"
      by (simp add: PlayAdvancedSynth playAdvancedSynth_def muted_returns [OF assms])
    then show ?thesis by (intro exI [of _ "[]"]) simp
  qed
qed (auto simp: muted_returns [OF assms] intro!: exI [of _ "[]"])

lemma fold_trigger_muted:
  assumes "layers s lid = Some layer" "muted layer"
  shows "\<exists>ps. fold (trigger_on lid) ops s = s\<lparr>promises := promises s @ ps\<rparr> \<and>
           (contextState s \<noteq> suspended \<longrightarrow> ps = []) \<and>
           list_all (\<lambda>e. \<exists>f v i p. snd e = RetrySynth f lid v i p) ps"
  using assms
proof (induction ops arbitrary: s)
  case Nil
  show ?case by (intro exI [of _ "[]"]) simp
next
  case (Cons op ops)
  from trigger_on_muted [OF Cons.prems, of op] obtain ps where
    t: "trigger_on lid op s = s\<lparr>promises := promises s @ ps\<rparr>"
    and c: "contextState s \<noteq> suspended \<longrightarrow> ps = []"
    and r: "list_all (\<lambda>e. \<exists>f v i p. snd e = RetrySynth f lid v i p) ps"
    by blast
  let ?s1 = "s\<lparr>promises := promises s @ ps\<rparr>"
  have "layers ?s1 lid = Some layer" using Cons.prems by simp
  from Cons.IH [OF this Cons.prems(2)] obtain qs where
    t': "fold (trigger_on lid) ops ?s1 = ?s1\<lparr>promises := promises ?s1 @ qs\<rparr>"
    and c': "contextState ?s1 \<noteq> suspended \<longrightarrow> qs = []"
    and r': "list_all (\<lambda>e. \<exists>f v i p. snd e = RetrySynth f lid v i p) qs"
    by blast
  show ?case
    using t t' c c' r r' by (intro exI [of _ "ps @ qs"]) simp
qed


lemma resume_muted:
  assumes "layers s lid = Some layer" "muted layer"
    and "list_all (\<lambda>e. \<exists>f v i p. snd e = RetrySynth f lid v i p) ps"
  shows "fold (\<lambda>e. resume_with (snd e)) ps s = s"
  using assms(3)
  by (induction ps) (auto simp: muted_returns [OF assms(1,2)])

text \<open>
  Claim C8, as stated, has every one-shot trigger on a muted layer return at the mute check
  and leave all engine state unchanged. \<open>playAdvancedSynth\<close> looks at the context
  first: on a suspended context it asks the context to resume and leaves its mute check
  to the promise callback, so the state it returns has a pending callback, and the context
  runs once the promise has resolved.
\<close>

theorem muted_trigger_resumes_context:
  "layers silent_engine ''drums'' = Some (drums\<lparr>muted := True\<rparr>) \<and>
   muted (drums\<lparr>muted := True\<rparr>) \<and>
   contextState silent_engine = suspended \<and> promises silent_engine = [] \<and>
   promises (playAdvancedSynth 440 ''drums'' 0.8 ''lead'' None silent_engine)
     = [(context_resume, RetrySynth 440 ''drums'' 0.8 ''lead'' None)] \<and>
   playAdvancedSynth 440 ''drums'' 0.8 ''lead'' None silent_engine \<noteq> silent_engine \<and>
   contextState (settle (playAdvancedSynth 440 ''drums'' 0.8 ''lead'' None silent_engine)) = running"
proof -
  have a: "layers silent_engine ''drums'' = Some (drums\<lparr>muted := True\<rparr>)"
    "contextState silent_engine = suspended" "promises silent_engine = []"
    by (simp_all add: silent_engine_def addLayer_def new_engine_def drums_def)
  have b: "playAdvancedSynth 440 ''drums'' 0.8 ''lead'' None silent_engine
    = silent_engine\<lparr>promises := [(context_resume, RetrySynth 440 ''drums'' 0.8 ''lead'' None)]\<rparr>"
    using a by (simp add: playAdvancedSynth_def then_call_def)
  have c: "contextState (settle (playAdvancedSynth 440 ''drums'' 0.8 ''lead'' None silent_engine)) = running"
    unfolding b using a(1) by (simp add: settle_def playAdvancedSynthInternal_def)
  have "promises (playAdvancedSynth 440 ''drums'' 0.8 ''lead'' None silent_engine) \<noteq> promises silent_engine"
    unfolding b using a(3) by simp
  then have "playAdvancedSynth 440 ''drums'' 0.8 ''lead'' None silent_engine \<noteq> silent_engine"
    by auto
  with a b c show ?thesis by simp
qed

text \<open>
  Claim C8, amended. After any sequence of one-shot triggers on a muted layer no node has
  been created and no connection made; the state is the one before except for the promise
  callbacks that \<open>playAdvancedSynth\<close> added on a suspended context, and is exactly the
  one before when the context is not suspended; when those callbacks run they return at the
  mute check, so only the context state has changed. \<open>playSample\<close>,
  \<open>playSyntheticNote\<close> and \<open>playAdvancedSynthInternal\<close> each return at the mute check
  with the state they were given.
\<close>

theorem muted_layer_one_shots:
  "layers s lid = Some layer \<and> muted layer \<longrightarrow>
     nodes (fold (trigger_on lid) ops s) = nodes s \<and>
     edges (fold (trigger_on lid) ops s) = edges s \<and>
     (fold (trigger_on lid) ops s)\<lparr>promises := promises s\<rparr> = s \<and>
     (contextState s \<noteq> suspended \<longrightarrow> fold (trigger_on lid) ops s = s) \<and>
     (promises s = [] \<longrightarrow> settle (fold (trigger_on lid) ops s) = s\<lparr>contextState := running\<rparr>) \<and>
     playSample sampleId lid velocity s = s \<and>
     playSyntheticNote note lid velocity s = s \<and>
     playAdvancedSynthInternal frequency lid velocity instrumentType synthParams s = s"
proof
  assume h: "layers s lid = Some layer \<and> muted layer"
  then have l: "layers s lid = Some layer" "muted layer" by simp_all
  from fold_trigger_muted [OF l, of ops] obtain ps where
    t: "fold (trigger_on lid) ops s = s\<lparr>promises := promises s @ ps\<rparr>"
    and c: "contextState s \<noteq> suspended \<longrightarrow> ps = []"
    and r: "list_all (\<lambda>e. \<exists>f v i p. snd e = RetrySynth f lid v i p) ps"
    by blast
  have st: "settle (fold (trigger_on lid) ops s) = s\<lparr>contextState := running\<rparr>" if "promises s = []"
  proof -
    let ?b = "s\<lparr>contextState := running, promises := []\<rparr>"
    have "layers ?b lid = Some layer" using l by simp
    from resume_muted [OF this l(2) r] that show ?thesis
      unfolding t by (simp add: settle_def)
  qed
  show "nodes (fold (trigger_on lid) ops s) = nodes s \<and>
     edges (fold (trigger_on lid) ops s) = edges s \<and>
     (fold (trigger_on lid) ops s)\<lparr>promises := promises s\<rparr> = s \<and>
     (contextState s \<noteq> suspended \<longrightarrow> fold (trigger_on lid) ops s = s) \<and>
     (promises s = [] \<longrightarrow> settle (fold (trigger_on lid) ops s) = s\<lparr>contextState := running\<rparr>) \<and>
     playSample sampleId lid velocity s = s \<and>
     playSyntheticNote note lid velocity s = s \<and>
     playAdvancedSynthInternal frequency lid velocity instrumentType synthParams s = s"
    using c st by (simp add: t muted_returns [OF l])
qed

theorem muted_layer_one_shots_witness:
  "(layers silent_engine ''drums'' = Some (drums\<lparr>muted := True\<rparr>) \<and>
    muted (drums\<lparr>muted := True\<rparr>)) \<and>
   nodes (fold (trigger_on ''drums'')
     [PlaySample ''kick'' 1, PlaySyntheticNote ''A4'' 0.8, PlayAdvancedSynth 440 0.8 ''lead'' None]
     silent_engine) = nodes silent_engine \<and>
   promises silent_engine = [] \<and>
   settle (fold (trigger_on ''drums'')
     [PlaySample ''kick'' 1, PlaySyntheticNote ''A4'' 0.8, PlayAdvancedSynth 440 0.8 ''lead'' None]
     silent_engine) = silent_engine\<lparr>contextState := running\<rparr> \<and>
   contextState (silent_engine\<lparr>contextState := running\<rparr>) \<noteq> suspended \<and>
   fold (trigger_on ''drums'')
     [PlaySample ''kick'' 1, PlaySyntheticNote ''A4'' 0.8, PlayAdvancedSynth 440 0.8 ''lead'' None]
     (silent_engine\<lparr>contextState := running\<rparr>) = silent_engine\<lparr>contextState := running\<rparr>"
proof -
  let ?ops = "[PlaySample ''kick'' 1, PlaySyntheticNote ''A4'' 0.8,
    PlayAdvancedSynth 440 0.8 ''lead'' None]"
  have a: "layers silent_engine ''drums'' = Some (drums\<lparr>muted := True\<rparr>) \<and>
      muted (drums\<lparr>muted := True\<rparr>)"
    by (simp add: silent_engine_def addLayer_def new_engine_def drums_def)
  have b: "layers (silent_engine\<lparr>contextState := running\<rparr>) ''drums''
      = Some (drums\<lparr>muted := True\<rparr>) \<and> muted (drums\<lparr>muted := True\<rparr>)"
    by (simp add: silent_engine_def addLayer_def new_engine_def drums_def)
  have p: "promises silent_engine = []"
    by (simp add: silent_engine_def addLayer_def new_engine_def)
  have c: "contextState (silent_engine\<lparr>contextState := running\<rparr>) \<noteq> suspended"
    by simp
  note t1 = muted_layer_one_shots [of silent_engine "''drums''" "drums\<lparr>muted := True\<rparr>" ?ops
      "''kick''" 1 "''A4''" 440 "''lead''" None, THEN mp, OF a]
  note t2 = muted_layer_one_shots [of "silent_engine\<lparr>contextState := running\<rparr>" "''drums''"
      "drums\<lparr>muted := True\<rparr>" ?ops "''kick''" 1 "''A4''" 440 "''lead''" None, THEN mp, OF b]
  from t1 have n: "nodes (fold (trigger_on ''drums'') ?ops silent_engine) = nodes silent_engine"
    by (rule conjunct1)
  from t1 p have st: "settle (fold (trigger_on ''drums'') ?ops silent_engine)
      = silent_engine\<lparr>contextState := running\<rparr>"
    by blast
  from t2 c have f: "fold (trigger_on ''drums'') ?ops (silent_engine\<lparr>contextState := running\<rparr>)
      = silent_engine\<lparr>contextState := running\<rparr>"
    by blast
  from a n p st c f show ?thesis by blast
qed

section \<open>WAV export\<close>

subsection \<open>The writes of \<open>bufferToWAV\<close> as a list\<close>

lemma puts_append: "puts (ws @ ws') view = puts ws view \<bind> puts ws'"
  by (induction ws arbitrary: view) (simp_all add: bind_assoc cong: Option.bind_cong)

lemma for_loop_puts:
  "(\<And>i v. body i v = put (fst (w i)) (snd (w i)) v) \<Longrightarrow> for_loop is body view = puts (map w is) view"
  by (induction "is" arbitrary: view) (simp_all cong: Option.bind_cong)

lemma for_loop_nested_puts:
  assumes "\<And>i v. body i v = puts (ws i) v"
  shows "for_loop is body view = puts (concat (map ws is)) view"
  using assms by (induction "is" arbitrary: view) (simp_all add: puts_append cong: Option.bind_cong)

lemma writeString_puts: "writeString offset str = puts (string_writes offset str)"
  unfolding writeString_def string_writes_def
  by (rule ext, rule for_loop_puts) (simp add: setUint8_def)

lemma sample_loop_puts:
  "for_loop [0..<length_frames b] (\<lambda>i.
     for_loop [0..<numberOfChannels b] (\<lambda>channel.
       setInt16 (44 + (i * numberOfChannels b + channel) * 2)
         (max (- 1) (min 1 (getChannelData b channel i)) * 32767)))
   = puts (sample_writes b)"
  unfolding sample_writes_def
  by (rule ext, rule for_loop_nested_puts, rule for_loop_puts) (simp add: setInt16_def sample_write_def)

lemma put_puts: "put offset bs = puts [(offset, bs)]"
proof
  fix view show "put offset bs view = puts [(offset, bs)] view"
    by (cases "put offset bs view") simp_all
qed

lemma puts_then: "puts ws view \<bind> puts ws' = puts (ws @ ws') view"
  by (simp add: puts_append)

lemma bufferToWAV_puts:
  "bufferToWAV b = puts (header_writes b @ sample_writes b)
     (replicate (44 + length_frames b * numberOfChannels b * 2) 0)"
  unfolding bufferToWAV_def Let_def writeString_puts sample_loop_puts setUint32_def setUint16_def
    header_writes_def put_puts puts_then
  by simp


subsection \<open>What a list of writes leaves in the view\<close>

lemma put_length: "put offset bs view = Some view' \<Longrightarrow> length view' = length view"
  by (auto simp: put_def split: if_splits)

lemma put_nth_in:
  "put offset bs view = Some view' \<Longrightarrow> j < length bs \<Longrightarrow> view' ! (offset + j) = bs ! j"
  by (auto simp: put_def nth_append split: if_splits)

lemma put_nth_out:
  "put offset bs view = Some view' \<Longrightarrow> p < offset \<or> offset + length bs \<le> p \<Longrightarrow>
     view' ! p = view ! p"
  by (auto simp: put_def nth_append split: if_splits)

lemma puts_length: "puts ws view = Some view' \<Longrightarrow> length view' = length view"
proof (induction ws arbitrary: view)
  case (Cons w ws)
  then obtain v1 where "put (fst w) (snd w) view = Some v1" "puts ws v1 = Some view'"
    by (auto split: bind_splits)
  with Cons.IH [of v1] show ?case by (simp add: put_length)
qed simp

lemma puts_Some:
  "list_all (\<lambda>w. fst w + length (snd w) \<le> length view) ws \<Longrightarrow> \<exists>view'. puts ws view = Some view'"
proof (induction ws arbitrary: view)
  case (Cons w ws)
  then have "fst w + length (snd w) \<le> length view" by simp
  then obtain v1 where v1: "put (fst w) (snd w) view = Some v1" by (auto simp: put_def)
  then have "length v1 = length view" by (rule put_length)
  with Cons.prems have "list_all (\<lambda>w. fst w + length (snd w) \<le> length v1) ws" by simp
  from Cons.IH [OF this] v1 show ?case by simp
qed simp

lemma puts_nth:
  assumes "puts ws view = Some view'" and "j < length bs"
    and "\<forall>w \<in> set ws. w = (offset, bs) \<or> fst w + length (snd w) \<le> offset \<or>
           offset + length bs \<le> fst w"
    and "(offset, bs) \<in> set ws \<or> view ! (offset + j) = bs ! j"
  shows "view' ! (offset + j) = bs ! j"
  using assms
proof (induction ws arbitrary: view)
  case Nil
  then show ?case by simp
next
  case (Cons w ws)
  from Cons.prems(1) obtain v1 where
    p: "put (fst w) (snd w) view = Some v1" and r: "puts ws v1 = Some view'"
    by (auto split: bind_splits)
  have "(offset, bs) \<in> set ws \<or> v1 ! (offset + j) = bs ! j"
  proof (cases "w = (offset, bs)")
    case True
    with p Cons.prems(2) show ?thesis by (auto dest: put_nth_in)
  next
    case False
    with Cons.prems(3) have "fst w + length (snd w) \<le> offset \<or> offset + length bs \<le> fst w"
      by auto
    with Cons.prems(2) have "offset + j < fst w \<or> fst w + length (snd w) \<le> offset + j"
      by auto
    from put_nth_out [OF p this] Cons.prems(4) False show ?thesis by auto
  qed
  with Cons.IH [OF r Cons.prems(2)] Cons.prems(3) show ?case by simp
qed

subsection \<open>The header and the samples\<close>

lemma length_le_bytes [simp]: "length (le_bytes n v) = n"
  by (simp add: le_bytes_def)

lemma nth_le_bytes: "j < n \<Longrightarrow> unat (le_bytes n v ! j) = v div 256 ^ j mod 256"
  by (simp add: le_bytes_def unat_of_nat)

lemma string_writes_literals:
  "string_writes offset [c0, c1, c2, c3] =
     [(offset, le_bytes 1 (of_char c0)), (offset + 1, le_bytes 1 (of_char c1)),
      (offset + 2, le_bytes 1 (of_char c2)), (offset + 3, le_bytes 1 (of_char c3))]"
  by (simp add: string_writes_def upt_rec)

lemma header_writes_list:
  "header_writes b =
     [(0, le_bytes 1 82), (1, le_bytes 1 73), (2, le_bytes 1 70), (3, le_bytes 1 70),
      (4, le_bytes 4 (36 + length_frames b * numberOfChannels b * 2)),
      (8, le_bytes 1 87), (9, le_bytes 1 65), (10, le_bytes 1 86), (11, le_bytes 1 69),
      (12, le_bytes 1 102), (13, le_bytes 1 109), (14, le_bytes 1 116), (15, le_bytes 1 32),
      (16, le_bytes 4 16), (20, le_bytes 2 1), (22, le_bytes 2 (numberOfChannels b)),
      (24, le_bytes 4 (sampleRate b)),
      (28, le_bytes 4 (sampleRate b * numberOfChannels b * 2)),
      (32, le_bytes 2 (numberOfChannels b * 2)), (34, le_bytes 2 16),
      (36, le_bytes 1 100), (37, le_bytes 1 97), (38, le_bytes 1 116), (39, le_bytes 1 97),
      (40, le_bytes 4 (length_frames b * numberOfChannels b * 2))]"
  by (simp add: header_writes_def string_writes_literals)


lemma header_apart:
  "\<forall>w \<in> set (header_writes b). \<forall>w' \<in> set (header_writes b).
     w' = w \<or> fst w' + length (snd w') \<le> fst w \<or> fst w + length (snd w) \<le> fst w'"
  by (simp add: header_writes_list)

lemma header_below: "\<forall>w \<in> set (header_writes b). fst w + length (snd w) \<le> 44"
  by (simp add: header_writes_list)

lemma sample_writes_set:
  "set (sample_writes b) =
     {sample_write b i c | i c. i < length_frames b \<and> c < numberOfChannels b}"
  by (auto simp: sample_writes_def) blast

lemma frame_channel_unique:
  fixes i c i' c' n :: nat
  assumes "c < n" "c' < n" "i * n + c = i' * n + c'"
  shows "i = i' \<and> c = c'"
proof -
  have "(i * n + c) div n = i" "(i' * n + c') div n = i'" using assms(1,2) by simp_all
  with assms(3) have "i = i'" by simp
  with assms(3) show ?thesis by simp
qed

lemma sample_apart:
  assumes "c < numberOfChannels b" "c' < numberOfChannels b"
  shows "sample_write b i' c' = sample_write b i c \<or>
     fst (sample_write b i' c') + length (snd (sample_write b i' c')) \<le> fst (sample_write b i c) \<or>
     fst (sample_write b i c) + length (snd (sample_write b i c)) \<le> fst (sample_write b i' c')"
proof (cases "i * numberOfChannels b + c = i' * numberOfChannels b + c'")
  case True
  from frame_channel_unique [OF assms True] show ?thesis by simp
next
  case False
  then show ?thesis by (auto simp: sample_write_def)
qed

lemma sample_in_range:
  assumes "i < length_frames b" "c < numberOfChannels b"
  shows "fst (sample_write b i c) + length (snd (sample_write b i c))
     \<le> 44 + length_frames b * numberOfChannels b * 2"
    and "44 \<le> fst (sample_write b i c)"
proof -
  from assms(1) have "Suc i * numberOfChannels b \<le> length_frames b * numberOfChannels b"
    by (intro mult_le_mono1) simp
  with assms(2) have "i * numberOfChannels b + c + 1 \<le> length_frames b * numberOfChannels b"
    by simp
  then show "fst (sample_write b i c) + length (snd (sample_write b i c))
     \<le> 44 + length_frames b * numberOfChannels b * 2"
    by (simp add: sample_write_def)
  show "44 \<le> fst (sample_write b i c)" by (simp add: sample_write_def)
qed

lemma bufferToWAV_returns:
  "\<exists>view. bufferToWAV b = Some view \<and> length view = 44 + length_frames b * numberOfChannels b * 2"
proof -
  let ?n = "44 + length_frames b * numberOfChannels b * 2"
  have "list_all (\<lambda>w. fst w + length (snd w) \<le> length (replicate ?n (0 :: byte)))
      (header_writes b @ sample_writes b)"
    using header_below [of b] sample_in_range(1) [of _ b]
    by (fastforce simp: list_all_iff sample_writes_set)
  from puts_Some [OF this] obtain view where v: "bufferToWAV b = Some view"
    by (auto simp: bufferToWAV_puts)
  then have "length view = ?n"
    by (auto simp: bufferToWAV_puts dest: puts_length)
  with v show ?thesis by blast
qed

lemma header_byte:
  assumes v: "bufferToWAV b = Some view" and w: "(offset, bs) \<in> set (header_writes b)"
    and j: "j < length bs"
  shows "view ! (offset + j) = bs ! j"
proof -
  have "\<forall>w \<in> set (header_writes b @ sample_writes b).
      w = (offset, bs) \<or> fst w + length (snd w) \<le> offset \<or> offset + length bs \<le> fst w"
  proof
    fix w' assume "w' \<in> set (header_writes b @ sample_writes b)"
    then consider "w' \<in> set (header_writes b)" | "w' \<in> set (sample_writes b)" by auto
    then show "w' = (offset, bs) \<or> fst w' + length (snd w') \<le> offset \<or> offset + length bs \<le> fst w'"
    proof cases
      case 1
      with header_apart [of b] w show ?thesis by fastforce
    next
      case 2
      then have "44 \<le> fst w'" using sample_in_range(2) by (auto simp: sample_writes_set)
      moreover from header_below [of b] w have "offset + length bs \<le> 44" by fastforce
      ultimately show ?thesis by simp
    qed
  qed
  from puts_nth [OF v [unfolded bufferToWAV_puts] j this] w show ?thesis by simp
qed

lemma sample_bytes:
  assumes v: "bufferToWAV b = Some view"
    and i: "i < length_frames b" and c: "c < numberOfChannels b" and j: "j < 2"
  shows "view ! (fst (sample_write b i c) + j) = snd (sample_write b i c) ! j"
proof -
  let ?o = "fst (sample_write b i c)" and ?bs = "snd (sample_write b i c)"
  have l: "length ?bs = 2" by (simp add: sample_write_def)
  have "\<forall>w \<in> set (header_writes b @ sample_writes b).
      w = (?o, ?bs) \<or> fst w + length (snd w) \<le> ?o \<or> ?o + length ?bs \<le> fst w"
  proof
    fix w' assume "w' \<in> set (header_writes b @ sample_writes b)"
    then consider "w' \<in> set (header_writes b)" | "w' \<in> set (sample_writes b)" by auto
    then show "w' = (?o, ?bs) \<or> fst w' + length (snd w') \<le> ?o \<or> ?o + length ?bs \<le> fst w'"
    proof cases
      case 1
      with header_below [of b] have "fst w' + length (snd w') \<le> 44" by fastforce
      with sample_in_range(2) [OF i c] show ?thesis by simp
    next
      case 2
      then obtain i' c' where "w' = sample_write b i' c'" "c' < numberOfChannels b"
        by (auto simp: sample_writes_set)
      with sample_apart [OF c this(2), of i' i] show ?thesis by simp
    qed
  qed
  moreover have "(?o, ?bs) \<in> set (header_writes b @ sample_writes b)"
    using i c by (auto simp: sample_writes_set)
  moreover have "j < length ?bs" using j l by simp
  ultimately show ?thesis
    using puts_nth [OF v [unfolded bufferToWAV_puts], of j ?bs ?o] by simp
qed


subsection \<open>Reading the fields back\<close>

lemma le16: "(v :: nat) mod 256 + 256 * (v div 256 mod 256) = v mod 65536"
proof -
  have "v mod (256 * 256) = 256 * (v div 256 mod 256) + v mod 256" by (rule mod_mult2_eq)
  then show ?thesis by simp
qed

lemma le32:
  "(v :: nat) mod 256 + 256 * (v div 256 mod 256) + 65536 * (v div 65536 mod 256) +
     16777216 * (v div 16777216 mod 256) = v mod 4294967296"
proof -
  have a: "v mod (65536 * 65536) = 65536 * (v div 65536 mod 65536) + v mod 65536"
    by (rule mod_mult2_eq)
  have b: "v div 65536 mod 65536 = (v div 65536) mod 256 + 256 * (v div 65536 div 256 mod 256)"
    by (simp add: le16)
  have c: "v div 65536 div 256 = v div 16777216" by (simp add: div_mult2_eq [symmetric])
  from a b c le16 [of v, symmetric] show ?thesis by simp
qed

lemma header_uint8:
  assumes "bufferToWAV b = Some view" "(offset, le_bytes 1 v) \<in> set (header_writes b)"
  shows "getUint8 offset view = v mod 256"
  using header_byte [OF assms, of 0] by (simp add: getUint8_def nth_le_bytes)

lemma header_uint16:
  assumes "bufferToWAV b = Some view" "(offset, le_bytes 2 v) \<in> set (header_writes b)"
  shows "getUint16 offset view = v mod 65536"
  using header_byte [OF assms, of 0] header_byte [OF assms, of 1]
  by (simp add: getUint16_def nth_le_bytes le16)

lemma header_uint32:
  assumes "bufferToWAV b = Some view" "(offset, le_bytes 4 v) \<in> set (header_writes b)"
  shows "getUint32 offset view = v mod 4294967296"
  using header_byte [OF assms, of 0] header_byte [OF assms, of 1]
    header_byte [OF assms, of 2] header_byte [OF assms, of 3]
  using le32 [of v]
  by (simp add: getUint32_def nth_le_bytes div_mult2_eq [symmetric])

lemma int16_round_trip:
  fixes t :: int
  assumes "- 32768 \<le> t" "t < 32768"
  shows "(let u = int (nat (t mod 65536) mod 65536) in if u < 32768 then u else u - 65536) = t"
proof (cases "0 \<le> t")
  case True
  with assms have "t mod 65536 = t" by simp
  with True assms show ?thesis by (simp add: Let_def)
next
  case False
  have "(t + 65536) mod 65536 = t + 65536" using False assms by (intro mod_pos_pos_trivial) simp_all
  then have "t mod 65536 = t + 65536" by simp
  with False assms show ?thesis by (simp add: Let_def)
qed

lemma js_trunc_scaled:
  fixes y :: real
  assumes "- 1 \<le> y" "y \<le> 1"
  shows "- 32767 \<le> js_trunc (y * 32767)" "js_trunc (y * 32767) \<le> 32767"
    "\<bar>real_of_int (js_trunc (y * 32767)) - y * 32767\<bar> < 1"
proof -
  let ?x = "y * 32767"
  have b: "- 32767 \<le> ?x" "?x \<le> 32767" using assms by simp_all
  have f: "real_of_int \<lfloor>?x\<rfloor> \<le> ?x" "?x < real_of_int \<lfloor>?x\<rfloor> + 1" by linarith+
  have c: "?x \<le> real_of_int \<lceil>?x\<rceil>" "real_of_int \<lceil>?x\<rceil> < ?x + 1" by linarith+
  have lo: "(- 32767 :: int) \<le> \<lfloor>?x\<rfloor>" using b(1) by (simp add: le_floor_iff)
  have hi: "\<lceil>?x\<rceil> \<le> (32767 :: int)" using b(2) by (simp add: ceiling_le_iff)
  have fc: "\<lfloor>?x\<rfloor> \<le> \<lceil>?x\<rceil>" by (rule floor_le_ceiling)
  show "- 32767 \<le> js_trunc ?x" using lo fc by (simp add: js_trunc_def)
  show "js_trunc ?x \<le> 32767" using hi fc by (simp add: js_trunc_def)
  show "\<bar>real_of_int (js_trunc ?x) - ?x\<bar> < 1"
  proof (cases "0 \<le> ?x")
    case True
    then have e: "js_trunc ?x = \<lfloor>?x\<rfloor>" by (simp add: js_trunc_def)
    from f show ?thesis unfolding e abs_less_iff by linarith
  next
    case False
    then have e: "js_trunc ?x = \<lceil>?x\<rceil>" by (simp add: js_trunc_def)
    from c show ?thesis unfolding e abs_less_iff by linarith
  qed
qed


lemma sample_value:
  assumes v: "bufferToWAV b = Some view"
    and i: "i < length_frames b" and c: "c < numberOfChannels b"
  shows "getInt16 (44 + (i * numberOfChannels b + c) * 2) view
     = js_trunc (max (- 1) (min 1 (getChannelData b c i)) * 32767)"
proof -
  let ?y = "max (- 1) (min 1 (getChannelData b c i))"
  let ?t = "js_trunc (?y * 32767)"
  have y: "- 1 \<le> ?y" "?y \<le> 1" by simp_all
  note t = js_trunc_scaled [OF y]
  have o: "fst (sample_write b i c) = 44 + (i * numberOfChannels b + c) * 2"
    and bs: "snd (sample_write b i c) = le_bytes 2 (nat (?t mod 65536))"
    by (simp_all add: sample_write_def)
  from sample_bytes [OF v i c, of 0] sample_bytes [OF v i c, of 1]
  have "getUint16 (44 + (i * numberOfChannels b + c) * 2) view = nat (?t mod 65536) mod 65536"
    unfolding o bs by (simp add: getUint16_def nth_le_bytes le16)
  then have "getInt16 (44 + (i * numberOfChannels b + c) * 2) view
    = (let u = int (nat (?t mod 65536) mod 65536) in if u < 32768 then u else u - 65536)"
    by (simp add: getInt16_def)
  also have "\<dots> = ?t" using t(1,2) by (intro int16_round_trip) simp_all
  finally show ?thesis .
qed

lemma decode_error:
  fixes y :: real
  assumes "- 1 \<le> y" "y \<le> 1"
  shows "\<bar>decode_sample (js_trunc (y * 32767)) - y\<bar> < 1 / 32767"
proof -
  have "\<bar>real_of_int (js_trunc (y * 32767)) - y * 32767\<bar> < 1"
    by (rule js_trunc_scaled [OF assms])
  then have "\<bar>(real_of_int (js_trunc (y * 32767)) - y * 32767) / 32767\<bar> < 1 / 32767"
    by (simp add: abs_divide)
  moreover have "(real_of_int (js_trunc (y * 32767)) - y * 32767) / 32767
    = decode_sample (js_trunc (y * 32767)) - y"
    by (simp add: decode_sample_def diff_divide_distrib)
  ultimately show ?thesis by simp
qed


lemma four_offsets:
  "[0..<4] = [0, 1, 2, 3 :: nat]" "[8..<12] = [8, 9, 10, 11 :: nat]"
  "[12..<16] = [12, 13, 14, 15 :: nat]" "[36..<40] = [36, 37, 38, 39 :: nat]"
  by (simp_all add: upt_rec eval_nat_numeral)

text \<open>
  Claim C9, as stated, has the decoded bytes reproduce the original signal within one
  least significant bit for every buffer. A sample outside the interval from -1 to 1 is
  clamped before it is scaled: the sample 2 is written as 32767, which decodes to 1.
\<close>

theorem bufferToWAV_clips:
  "bufferToWAV loud_buffer \<noteq> None \<and> getChannelData loud_buffer 0 0 = 2 \<and>
   decode_sample (getInt16 44 (the (bufferToWAV loud_buffer))) = 1 \<and>
   \<not> \<bar>decode_sample (getInt16 44 (the (bufferToWAV loud_buffer))) - getChannelData loud_buffer 0 0\<bar>
       \<le> 1 / 32767"
proof -
  from bufferToWAV_returns [of loud_buffer] obtain view where v: "bufferToWAV loud_buffer = Some view"
    by blast
  have "js_trunc 32767 = 32767" by (simp add: js_trunc_def)
  with sample_value [OF v, of 0 0] have "getInt16 44 view = 32767"
    by (simp add: loud_buffer_def)
  with v show ?thesis by (simp add: decode_sample_def loud_buffer_def)
qed

text \<open>
  Claim C9, amended. \<open>bufferToWAV\<close> returns, for every buffer, \<open>44 + length * channels * 2\<close>
  bytes. For a buffer whose sizes fit the fields of the header, the first 44 bytes read
  back as: the ASCII text RIFF, 36 plus the data size, WAVE, \<open>fmt\<close> with a blank, the
  sub-chunk size 16, the format 1 (PCM), the number of channels, the sample rate, the byte
  rate (sample rate times channels times 2), the block align (channels times 2), 16 bits
  per sample, the text data and the data size, the numbers little-endian. After them come
  the samples, interleaved by frame and channel, each the sample clamped to the interval
  from -1 to 1, times 32767, with the fraction dropped, as a little-endian 16-bit integer.
  Read back on that scale, a sample differs from the clamped original by less than one
  least significant bit, so from the original itself when that lies between -1 and 1.
\<close>

theorem bufferToWAV_format:
  "fits_header b \<longrightarrow>
     (\<exists>view. bufferToWAV b = Some view \<and>
        length view = 44 + length_frames b * numberOfChannels b * 2 \<and>
        map (\<lambda>i. getUint8 i view) [0..<4] = map of_char ''RIFF'' \<and>
        getUint32 4 view = 36 + length_frames b * numberOfChannels b * 2 \<and>
        map (\<lambda>i. getUint8 i view) [8..<12] = map of_char ''WAVE'' \<and>
        map (\<lambda>i. getUint8 i view) [12..<16] = map of_char ''fmt '' \<and>
        getUint32 16 view = 16 \<and> getUint16 20 view = 1 \<and>
        getUint16 22 view = numberOfChannels b \<and>
        getUint32 24 view = sampleRate b \<and>
        getUint32 28 view = sampleRate b * numberOfChannels b * 2 \<and>
        getUint16 32 view = numberOfChannels b * 2 \<and> getUint16 34 view = 16 \<and>
        map (\<lambda>i. getUint8 i view) [36..<40] = map of_char ''data'' \<and>
        getUint32 40 view = length_frames b * numberOfChannels b * 2 \<and>
        (\<forall>i c. i < length_frames b \<and> c < numberOfChannels b \<longrightarrow>
           getInt16 (44 + (i * numberOfChannels b + c) * 2) view
             = js_trunc (max (- 1) (min 1 (getChannelData b c i)) * 32767) \<and>
           \<bar>decode_sample (getInt16 (44 + (i * numberOfChannels b + c) * 2) view)
              - max (- 1) (min 1 (getChannelData b c i))\<bar> < 1 / 32767 \<and>
           (- 1 \<le> getChannelData b c i \<and> getChannelData b c i \<le> 1 \<longrightarrow>
              \<bar>decode_sample (getInt16 (44 + (i * numberOfChannels b + c) * 2) view)
                 - getChannelData b c i\<bar> < 1 / 32767)))"
proof
  assume fit: "fits_header b"
  from bufferToWAV_returns [of b] obtain view where
    v: "bufferToWAV b = Some view"
    and l: "length view = 44 + length_frames b * numberOfChannels b * 2"
    by blast
  note u8 = header_uint8 [OF v] and u16 = header_uint16 [OF v] and u32 = header_uint32 [OF v]
  have riff: "map (\<lambda>i. getUint8 i view) [0..<4] = map of_char ''RIFF''"
    using u8 [of 0 82] u8 [of 1 73] u8 [of 2 70] u8 [of 3 70]
    by (simp add: header_writes_list four_offsets)
  have wave: "map (\<lambda>i. getUint8 i view) [8..<12] = map of_char ''WAVE''"
    using u8 [of 8 87] u8 [of 9 65] u8 [of 10 86] u8 [of 11 69]
    by (simp add: header_writes_list four_offsets)
  have fmt: "map (\<lambda>i. getUint8 i view) [12..<16] = map of_char ''fmt ''"
    using u8 [of 12 102] u8 [of 13 109] u8 [of 14 116] u8 [of 15 32]
    by (simp add: header_writes_list four_offsets)
  have data: "map (\<lambda>i. getUint8 i view) [36..<40] = map of_char ''data''"
    using u8 [of 36 100] u8 [of 37 97] u8 [of 38 116] u8 [of 39 97]
    by (simp add: header_writes_list four_offsets)
  have f4: "getUint32 4 view = 36 + length_frames b * numberOfChannels b * 2"
    using u32 [of 4 "36 + length_frames b * numberOfChannels b * 2"] fit
    by (simp add: header_writes_list fits_header_def)
  have f16: "getUint32 16 view = 16" using u32 [of 16 16] by (simp add: header_writes_list)
  have f20: "getUint16 20 view = 1" using u16 [of 20 1] by (simp add: header_writes_list)
  have f22: "getUint16 22 view = numberOfChannels b"
    using u16 [of 22 "numberOfChannels b"] fit by (simp add: header_writes_list fits_header_def)
  have f24: "getUint32 24 view = sampleRate b"
    using u32 [of 24 "sampleRate b"] fit by (simp add: header_writes_list fits_header_def)
  have f28: "getUint32 28 view = sampleRate b * numberOfChannels b * 2"
    using u32 [of 28 "sampleRate b * numberOfChannels b * 2"] fit
    by (simp add: header_writes_list fits_header_def)
  have f32: "getUint16 32 view = numberOfChannels b * 2"
    using u16 [of 32 "numberOfChannels b * 2"] fit by (simp add: header_writes_list fits_header_def)
  have f34: "getUint16 34 view = 16" using u16 [of 34 16] by (simp add: header_writes_list)
  have f40: "getUint32 40 view = length_frames b * numberOfChannels b * 2"
    using u32 [of 40 "length_frames b * numberOfChannels b * 2"] fit
    by (simp add: header_writes_list fits_header_def)
  have smp: "getInt16 (44 + (i * numberOfChannels b + c) * 2) view
             = js_trunc (max (- 1) (min 1 (getChannelData b c i)) * 32767) \<and>
           \<bar>decode_sample (getInt16 (44 + (i * numberOfChannels b + c) * 2) view)
              - max (- 1) (min 1 (getChannelData b c i))\<bar> < 1 / 32767 \<and>
           (- 1 \<le> getChannelData b c i \<and> getChannelData b c i \<le> 1 \<longrightarrow>
              \<bar>decode_sample (getInt16 (44 + (i * numberOfChannels b + c) * 2) view)
                 - getChannelData b c i\<bar> < 1 / 32767)"
    if "i < length_frames b \<and> c < numberOfChannels b" for i c
  proof -
    let ?y = "max (- 1) (min 1 (getChannelData b c i))"
    from that sample_value [OF v, of i c]
    have e: "getInt16 (44 + (i * numberOfChannels b + c) * 2) view = js_trunc (?y * 32767)"
      by blast
    have d: "\<bar>decode_sample (js_trunc (?y * 32767)) - ?y\<bar> < 1 / 32767"
      by (rule decode_error) simp_all
    have d2: "\<bar>decode_sample (js_trunc (?y * 32767)) - getChannelData b c i\<bar> < 1 / 32767"
      if r: "- 1 \<le> getChannelData b c i \<and> getChannelData b c i \<le> 1"
    proof -
      from r have yx: "?y = getChannelData b c i" by simp
      from d show ?thesis unfolding yx .
    qed
    from d d2 show ?thesis unfolding e by blast
  qed
  from v l riff wave fmt data f4 f16 f20 f22 f24 f28 f32 f34 f40 smp
  show "\<exists>view. bufferToWAV b = Some view \<and>
        length view = 44 + length_frames b * numberOfChannels b * 2 \<and>
        map (\<lambda>i. getUint8 i view) [0..<4] = map of_char ''RIFF'' \<and>
        getUint32 4 view = 36 + length_frames b * numberOfChannels b * 2 \<and>
        map (\<lambda>i. getUint8 i view) [8..<12] = map of_char ''WAVE'' \<and>
        map (\<lambda>i. getUint8 i view) [12..<16] = map of_char ''fmt '' \<and>
        getUint32 16 view = 16 \<and> getUint16 20 view = 1 \<and>
        getUint16 22 view = numberOfChannels b \<and>
        getUint32 24 view = sampleRate b \<and>
        getUint32 28 view = sampleRate b * numberOfChannels b * 2 \<and>
        getUint16 32 view = numberOfChannels b * 2 \<and> getUint16 34 view = 16 \<and>
        map (\<lambda>i. getUint8 i view) [36..<40] = map of_char ''data'' \<and>
        getUint32 40 view = length_frames b * numberOfChannels b * 2 \<and>
        (\<forall>i c. i < length_frames b \<and> c < numberOfChannels b \<longrightarrow>
           getInt16 (44 + (i * numberOfChannels b + c) * 2) view
             = js_trunc (max (- 1) (min 1 (getChannelData b c i)) * 32767) \<and>
           \<bar>decode_sample (getInt16 (44 + (i * numberOfChannels b + c) * 2) view)
              - max (- 1) (min 1 (getChannelData b c i))\<bar> < 1 / 32767 \<and>
           (- 1 \<le> getChannelData b c i \<and> getChannelData b c i \<le> 1 \<longrightarrow>
              \<bar>decode_sample (getInt16 (44 + (i * numberOfChannels b + c) * 2) view)
                 - getChannelData b c i\<bar> < 1 / 32767))"
    by blast
qed


theorem bufferToWAV_format_witness:
  "fits_header stereo_buffer \<and>
   (\<exists>view. bufferToWAV stereo_buffer = Some view \<and> length view = 52 \<and>
      map (\<lambda>i. getUint8 i view) [0..<4] = map of_char ''RIFF'' \<and>
      getUint32 4 view = 44 \<and> getUint16 22 view = 2 \<and> getUint32 24 view = 44100 \<and>
      getUint32 28 view = 176400 \<and> getUint16 32 view = 4 \<and> getUint32 40 view = 8 \<and>
      (0 :: nat) < 2 \<and> (1 :: nat) < 2 \<and>
      getInt16 44 view = 16383 \<and> getInt16 46 view = - 8191 \<and>
      (- 1 :: real) \<le> 0.5 \<and> (0.5 :: real) \<le> 1 \<and>
      \<bar>decode_sample (getInt16 44 view) - 0.5\<bar> < 1 / 32767)"
proof -
  have fit: "fits_header stereo_buffer"
    by (simp add: fits_header_def stereo_buffer_def)
  from bufferToWAV_format [of stereo_buffer, THEN mp, OF fit] obtain view where
    v: "bufferToWAV stereo_buffer = Some view"
    and l: "length view = 44 + length_frames stereo_buffer * numberOfChannels stereo_buffer * 2"
    and riff: "map (\<lambda>i. getUint8 i view) [0..<4] = map of_char ''RIFF''"
    and h: "getUint32 4 view = 36 + length_frames stereo_buffer * numberOfChannels stereo_buffer * 2"
      "getUint16 22 view = numberOfChannels stereo_buffer"
      "getUint32 24 view = sampleRate stereo_buffer"
      "getUint32 28 view = sampleRate stereo_buffer * numberOfChannels stereo_buffer * 2"
      "getUint16 32 view = numberOfChannels stereo_buffer * 2"
      "getUint32 40 view = length_frames stereo_buffer * numberOfChannels stereo_buffer * 2"
    and s: "\<forall>i c. i < length_frames stereo_buffer \<and> c < numberOfChannels stereo_buffer \<longrightarrow>
           getInt16 (44 + (i * numberOfChannels stereo_buffer + c) * 2) view
             = js_trunc (max (- 1) (min 1 (getChannelData stereo_buffer c i)) * 32767) \<and>
           \<bar>decode_sample (getInt16 (44 + (i * numberOfChannels stereo_buffer + c) * 2) view)
              - max (- 1) (min 1 (getChannelData stereo_buffer c i))\<bar> < 1 / 32767 \<and>
           (- 1 \<le> getChannelData stereo_buffer c i \<and> getChannelData stereo_buffer c i \<le> 1 \<longrightarrow>
              \<bar>decode_sample (getInt16 (44 + (i * numberOfChannels stereo_buffer + c) * 2) view)
                 - getChannelData stereo_buffer c i\<bar> < 1 / 32767)"
    by blast
  from s [rule_format, of 0 0] have s0: "getInt16 44 view = 16383"
    by (simp add: stereo_buffer_def js_trunc_def)
  have s0': "\<bar>decode_sample (getInt16 44 view) - 0.5\<bar> < 1 / 32767"
    unfolding s0 by (simp add: decode_sample_def)
  from s [rule_format, of 0 1] have s1: "getInt16 46 view = - 8191"
    by (simp add: stereo_buffer_def js_trunc_def)
  from fit v l riff h s0 s0' s1 show ?thesis
    by (simp add: stereo_buffer_def)
qed

end
